theory Spec2Isabelle
  imports Main "HOL-Library.Word"
begin

unbundle bit_operations_syntax

section \<open>Machine types\<close>

text \<open>
  \<open>size_t\<close> and \<open>ir::PTXU64\<close> are 64-bit unsigned integers, \<open>unsigned int\<close> and
  \<open>ir::PTXU32\<close> are 32-bit unsigned integers. Arithmetic on them wraps around, which
  is the arithmetic of \<open>'a word\<close>.
\<close>

type_synonym size_t = "64 word"
type_synonym PTXU64 = "64 word"
type_synonym uint = "32 word"
type_synonym PTXU32 = "32 word"

section \<open>BasicBlockInstrumentor\<close>

subsection \<open>Data\<close>

text \<open>
  \<open>enum BasicBlockInstrumentationType { instructionCount, executionCount, memoryIntensity }\<close>.
  The field \<open>type\<close> is not initialised by the constructor, so it can hold any value
  of the enumeration's underlying integer type; it is modelled by that integer.
\<close>

type_synonym BasicBlockInstrumentationType = int

definition instructionCount :: BasicBlockInstrumentationType where
  "instructionCount = 0"

definition executionCount :: BasicBlockInstrumentationType where
  "executionCount = 1"

definition memoryIntensity :: BasicBlockInstrumentationType where
  "memoryIntensity = 2"

text \<open>
  Modelled from the spec: the class \<open>KernelProfile\<close>, declared in PTXInstrumentor.h,
  which is not among the sources. It is the "mapping from block index to accumulated
  execution count, and mapping from block index to accumulated memory-operation
  count" of the specification, keyed and valued by \<open>size_t\<close>, the type of the loop
  variable that indexes it and of the counters added to it. A key that was never
  written is absent; \<open>operator[]\<close> reads an absent key as 0.
\<close>

record KernelProfile =
  basicBlockExecutionCountMap :: "size_t \<rightharpoonup> size_t"
  memoryOperationsMap :: "size_t \<rightharpoonup> size_t"

definition mapAt :: "(size_t \<rightharpoonup> size_t) \<Rightarrow> size_t \<Rightarrow> size_t" where
  "mapAt m i = (case m i of None \<Rightarrow> 0 | Some v \<Rightarrow> v)"

text \<open>\<open>m[i] += v\<close> on a \<open>std::map\<close>.\<close>

definition addAt :: "(size_t \<rightharpoonup> size_t) \<Rightarrow> size_t \<Rightarrow> size_t \<Rightarrow> (size_t \<rightharpoonup> size_t)" where
  "addAt m i v = m(i \<mapsto> mapAt m i + v)"

text \<open>
  Modelled from the spec: the fields \<open>kernelName\<close>, \<open>labels\<close>, \<open>threads\<close>,
  \<open>threadBlocks\<close> and \<open>_kernelProfile\<close>, which the instrumentor inherits from
  PTXInstrumentor, whose header is not among the sources. The specification has
  \<open>threads\<close> and \<open>threadBlocks\<close> as unsigned integers; they are taken as
  \<open>unsigned int\<close>, like \<open>basicBlocks\<close>. The fields \<open>basicBlocks\<close>, \<open>entries\<close> and \<open>type\<close>
  are as BasicBlockInstrumentor.h declares them. These are the fields that \<open>analyze\<close>,
  \<open>createPass\<close> and \<open>extractResults\<close> read and write.
\<close>

record BasicBlockInstrumentor =
  kernelName :: string
  labels :: "string list"
  threads :: uint
  threadBlocks :: uint
  basicBlocks :: uint
  entries :: size_t
  type :: BasicBlockInstrumentationType
  kernelProfile :: KernelProfile

subsection \<open>createPass\<close>

datatype PassKind = BasicBlockExecutionCountPass | DynamicInstructionCountPass | MemoryIntensityPass

record Pass =
  passKind :: PassKind
  passEntries :: size_t

datatype Exception = Exception string

text \<open>
  \<open>createPass\<close> assigns \<open>entries = 1\<close> before the switch, so the instrumentor is
  changed also when the switch throws: the result is the instrumentor after the call
  together with either the exception or the pass.
\<close>

definition createPass :: "BasicBlockInstrumentor \<Rightarrow> BasicBlockInstrumentor \<times> (Exception + Pass)" where
  "createPass s =
    (let s1 = s\<lparr>entries := 1\<rparr> in
     if type s1 = executionCount then
       (s1, Inr \<lparr>passKind = BasicBlockExecutionCountPass, passEntries = entries s1\<rparr>)
     else if type s1 = instructionCount then
       (s1, Inr \<lparr>passKind = DynamicInstructionCountPass, passEntries = entries s1\<rparr>)
     else if type s1 = memoryIntensity then
       (let s2 = s1\<lparr>entries := 2\<rparr> in
        (s2, Inr \<lparr>passKind = MemoryIntensityPass, passEntries = entries s2\<rparr>))
     else (s1, Inl (Exception ''No basic block instrumentation pass specified!'')))"

subsection \<open>The counter array\<close>

text \<open>
  The index expression of \<open>extractResults\<close>,
  \<open>(i * entries * threads) + (k * basicBlocks * threads * entries) + j\<close>, computed in
  \<open>size_t\<close> (\<open>i\<close>, \<open>k\<close> and \<open>j\<close> are \<open>size_t\<close>, so every operand is converted to it).
\<close>

definition counterIndex :: "size_t \<Rightarrow> uint \<Rightarrow> uint \<Rightarrow> size_t \<Rightarrow> size_t \<Rightarrow> size_t \<Rightarrow> size_t" where
  "counterIndex en bb th i k j =
     (i * en * ucast th) + (k * ucast bb * ucast th * en) + j"

text \<open>
  The slot of (block \<open>b\<close>, entry \<open>e\<close>, thread \<open>t\<close>, thread block \<open>k\<close>): the loop variable
  \<open>j\<close> of \<open>extractResults\<close> is \<open>t * entries\<close>, and entry \<open>e\<close> is read at \<open>j + e\<close>.
\<close>

definition flatIndex :: "size_t \<Rightarrow> uint \<Rightarrow> uint \<Rightarrow> size_t \<Rightarrow> size_t \<Rightarrow> size_t \<Rightarrow> size_t \<Rightarrow> size_t" where
  "flatIndex en bb th b e t k = counterIndex en bb th b k (t * en + e)"

text \<open>
  The number of elements of the counter array, as \<open>initialize\<close> and \<open>extractResults\<close>
  compute it: \<open>entries * basicBlocks * threadBlocks * threads\<close> in \<open>size_t\<close>.
\<close>

definition totalElements :: "size_t \<Rightarrow> uint \<Rightarrow> uint \<Rightarrow> uint \<Rightarrow> size_t" where
  "totalElements en bb tb th = en * ucast bb * ucast tb * ucast th"

text \<open>The index space of the counter array.\<close>

definition inIndexSpace :: "size_t \<Rightarrow> uint \<Rightarrow> uint \<Rightarrow> uint \<Rightarrow> size_t \<Rightarrow> size_t \<Rightarrow> size_t \<Rightarrow> size_t \<Rightarrow> bool" where
  "inIndexSpace en bb tb th b e t k =
     (b < ucast bb \<and> e < en \<and> t < ucast th \<and> k < ucast tb)"

text \<open>
  The claimed sums, in the words of the specification: for block \<open>b\<close> and entry \<open>e\<close>,
  the sum over every thread \<open>t\<close> of one thread block \<open>k\<close>, and over every thread
  block, of the counter at the slot of \<open>(b, e, t, k)\<close>. The sums are sums of \<open>size_t\<close>.
\<close>

definition slotSum :: "BasicBlockInstrumentor \<Rightarrow> size_t list \<Rightarrow> size_t \<Rightarrow> size_t \<Rightarrow> size_t \<Rightarrow> size_t" where
  "slotSum s info b e k =
     (\<Sum>t<unat (threads s).
        info ! unat (flatIndex (entries s) (basicBlocks s) (threads s) b e (of_nat t) k))"

definition blockSum :: "BasicBlockInstrumentor \<Rightarrow> size_t list \<Rightarrow> size_t \<Rightarrow> size_t \<Rightarrow> size_t" where
  "blockSum s info b e = (\<Sum>k<unat (threadBlocks s). slotSum s info b e (of_nat k))"

text \<open>The index formula over the natural numbers, used to bound the machine index.\<close>

definition natIndex :: "nat \<Rightarrow> nat \<Rightarrow> nat \<Rightarrow> nat \<Rightarrow> nat \<Rightarrow> nat \<Rightarrow> nat \<Rightarrow> nat" where
  "natIndex E B T b e t k = b * E * T + k * B * T * E + t * E + e"

subsection \<open>extractResults\<close>

text \<open>
  Reading an array or a vector outside its bounds, and dereferencing the \<open>end()\<close>
  iterator of a map, are undefined behaviour: the model stops there with a fault.
\<close>

datatype Fault = OutOfBounds | EndIteratorDereferenced

definition readInfo :: "size_t list \<Rightarrow> size_t \<Rightarrow> Fault + size_t" where
  "readInfo info n = (if unat n < length info then Inr (info ! unat n) else Inl OutOfBounds)"

text \<open>
  The innermost loop, \<open>for (j = 0; j < threads * entries; j = j + entries)\<close>. Both
  the bound \<open>threads * entries\<close> and the step \<open>j + entries\<close> can wrap around, so no
  simple measure bounds the number of iterations: the loop is a partial function,
  \<open>None\<close> being a loop that never returns, and that it returns is proved below.
\<close>

partial_function (option) counterLoop ::
  "BasicBlockInstrumentor \<Rightarrow> size_t list \<Rightarrow> size_t \<Rightarrow> size_t \<Rightarrow> size_t \<Rightarrow> KernelProfile
     \<Rightarrow> (Fault + KernelProfile) option" where
  "counterLoop s info k i j p =
     (if j < ucast (threads s) * entries s then
        (case readInfo info (counterIndex (entries s) (basicBlocks s) (threads s) i k j) of
           Inl f \<Rightarrow> Some (Inl f)
         | Inr v \<Rightarrow>
            (let p1 = p\<lparr>basicBlockExecutionCountMap := addAt (basicBlockExecutionCountMap p) i v\<rparr> in
             if type s = memoryIntensity then
               (case readInfo info (counterIndex (entries s) (basicBlocks s) (threads s) i k (j + 1)) of
                  Inl f \<Rightarrow> Some (Inl f)
                | Inr w \<Rightarrow>
                    counterLoop s info k i (j + entries s)
                      (p1\<lparr>memoryOperationsMap := addAt (memoryOperationsMap p1) i w\<rparr>))
             else counterLoop s info k i (j + entries s) p1))
      else Some (Inr p))"

declare counterLoop.simps [code]

text \<open>\<open>for (i = 0; i < basicBlocks; i++)\<close>\<close>

function blockLoop ::
  "BasicBlockInstrumentor \<Rightarrow> size_t list \<Rightarrow> size_t \<Rightarrow> size_t \<Rightarrow> KernelProfile
     \<Rightarrow> (Fault + KernelProfile) option" where
  "blockLoop s info k i p =
     (if i < ucast (basicBlocks s) then
        (case counterLoop s info k i 0 p of
           None \<Rightarrow> None
         | Some (Inl f) \<Rightarrow> Some (Inl f)
         | Some (Inr p1) \<Rightarrow> blockLoop s info k (i + 1) p1)
      else Some (Inr p))"
  by pat_completeness auto
termination
proof (relation "measure (\<lambda>(s, info, k, i, p). unat (ucast (basicBlocks s) :: size_t) - unat i)")
  fix s :: BasicBlockInstrumentor and info :: "size_t list" and k i :: size_t
    and p p1 :: KernelProfile and x2 :: "Fault + KernelProfile"
  assume lt: "i < ucast (basicBlocks s)"
  then have "unat (i + 1) = Suc (unat i)" by unat_arith
  moreover have "unat i < unat (ucast (basicBlocks s) :: size_t)"
    using lt by (simp add: word_less_nat_alt)
  ultimately show "((s, info, k, i + 1, p1), (s, info, k, i, p))
      \<in> measure (\<lambda>(s, info, k, i, p). unat (ucast (basicBlocks s) :: size_t) - unat i)"
    by simp
qed simp

text \<open>\<open>for (k = 0; k < threadBlocks; k++)\<close>\<close>

function threadBlockLoop ::
  "BasicBlockInstrumentor \<Rightarrow> size_t list \<Rightarrow> size_t \<Rightarrow> KernelProfile
     \<Rightarrow> (Fault + KernelProfile) option" where
  "threadBlockLoop s info k p =
     (if k < ucast (threadBlocks s) then
        (case blockLoop s info k 0 p of
           None \<Rightarrow> None
         | Some (Inl f) \<Rightarrow> Some (Inl f)
         | Some (Inr p1) \<Rightarrow> threadBlockLoop s info (k + 1) p1)
      else Some (Inr p))"
  by pat_completeness auto
termination
proof (relation "measure (\<lambda>(s, info, k, p). unat (ucast (threadBlocks s) :: size_t) - unat k)")
  fix s :: BasicBlockInstrumentor and info :: "size_t list" and k :: size_t
    and p p1 :: KernelProfile and x2 :: "Fault + KernelProfile"
  assume lt: "k < ucast (threadBlocks s)"
  then have "unat (k + 1) = Suc (unat k)" by unat_arith
  moreover have "unat k < unat (ucast (threadBlocks s) :: size_t)"
    using lt by (simp add: word_less_nat_alt)
  ultimately show "((s, info, k + 1, p1), (s, info, k, p))
      \<in> measure (\<lambda>(s, info, k, p). unat (ucast (threadBlocks s) :: size_t) - unat k)"
    by simp
qed simp

text \<open>
  What is written to \<open>*out\<close>: the sequence of strings and numbers inserted into the
  stream, in order.
\<close>

datatype OutItem = Text string | Number size_t

text \<open>
  Reading \<open>m[j]\<close> on a \<open>std::map\<close> inserts the key with value 0 when it is absent.
\<close>

definition touch :: "(size_t \<rightharpoonup> size_t) \<Rightarrow> size_t \<Rightarrow> (size_t \<rightharpoonup> size_t)" where
  "touch m j = m(j \<mapsto> mapAt m j)"

text \<open>
  The report loop, \<open>for (j = 0; j < basicBlocks; j++)\<close>, which reads \<open>labels[j]\<close>.
\<close>

function reportLoop ::
  "BasicBlockInstrumentor \<Rightarrow> size_t \<Rightarrow> KernelProfile \<Rightarrow> OutItem list
     \<Rightarrow> Fault + (KernelProfile \<times> OutItem list)" where
  \<open>reportLoop s j p out =
     (if j < ucast (basicBlocks s) then
        (if unat j < length (labels s) then
           (let out1 = out @ [Text ''"'', Text (labels s ! unat j), Text ''": '',
                              Number (mapAt (basicBlockExecutionCountMap p) j), Text '', ''];
                p1 = p\<lparr>basicBlockExecutionCountMap := touch (basicBlockExecutionCountMap p) j\<rparr>
            in if type s = memoryIntensity then
                 reportLoop s (j + 1)
                   (p1\<lparr>memoryOperationsMap := touch (memoryOperationsMap p1) j\<rparr>)
                   (out1 @ [Number (mapAt (memoryOperationsMap p1) j), Text ''\<newline>''])
               else reportLoop s (j + 1) p1 (out1 @ [Text ''\<newline>'']))
         else Inl OutOfBounds)
      else Inr (p, out))\<close>
  by pat_completeness auto
termination
proof (relation "measure (\<lambda>(s, j, p, out). unat (ucast (basicBlocks s) :: size_t) - unat j)")
  fix s :: BasicBlockInstrumentor and j :: size_t
  assume lt: "j < ucast (basicBlocks s)"
  then have "unat (j + 1) = Suc (unat j)" by unat_arith
  moreover have "unat j < unat (ucast (basicBlocks s) :: size_t)"
    using lt by (simp add: word_less_nat_alt)
  ultimately have "unat (ucast (basicBlocks s) :: size_t) - unat (j + 1)
      < unat (ucast (basicBlocks s) :: size_t) - unat j" by simp
  then show "\<And>p out x xa. ((s, j + 1, x, xa), (s, j, p, out))
      \<in> measure (\<lambda>(s, j, p, out). unat (ucast (basicBlocks s) :: size_t) - unat j)"
    and "\<And>p out x xa. ((s, j + 1, x, xa), (s, j, p, out))
      \<in> measure (\<lambda>(s, j, p, out). unat (ucast (basicBlocks s) :: size_t) - unat j)"
    by simp_all
qed simp

text \<open>The loop equations are unfolded by hand, one iteration at a time.\<close>

declare blockLoop.simps [simp del] threadBlockLoop.simps [simp del] reportLoop.simps [simp del]

text \<open>
  \<open>extractResults\<close>. \<open>info\<close> is the content of the host buffer after the copy from
  the device (whatever it holds when \<open>counter\<close> is null); the function returns it.
  Both maps of the profile are cleared before the reduction.
\<close>

definition extractResults ::
  "BasicBlockInstrumentor \<Rightarrow> size_t list \<Rightarrow> OutItem list
     \<Rightarrow> (Fault + (BasicBlockInstrumentor \<times> OutItem list \<times> size_t list)) option" where
  \<open>extractResults s info out =
     (let out1 = out @ [Text ''{\<newline>"kernel": '', Text (kernelName s), Text '',\<newline>'',
                        Text ''\<newline>"threadBlocks": '', Number (ucast (threadBlocks s)), Text '',\<newline>'',
                        Text ''\<newline>"threads": '', Number (ucast (threads s)), Text '',\<newline>'',
                        Text ''\<newline>"counters": {\<newline>''];
          p0 = \<lparr>basicBlockExecutionCountMap = Map.empty, memoryOperationsMap = Map.empty\<rparr>
      in case threadBlockLoop s info 0 p0 of
           None \<Rightarrow> None
         | Some (Inl f) \<Rightarrow> Some (Inl f)
         | Some (Inr p1) \<Rightarrow>
             (case reportLoop s 0 p1 out1 of
                Inl f \<Rightarrow> Some (Inl f)
              | Inr (p2, out2) \<Rightarrow>
                  Some (Inr (s\<lparr>kernelProfile := p2\<rparr>, out2 @ [Text ''\<newline>}\<newline>}\<newline>''], info))))\<close>

subsection \<open>analyze\<close>

text \<open>
  Modelled from the spec: what \<open>analyze\<close> reads of \<open>ir::Module\<close> and \<open>ir::Kernel\<close>, whose
  headers are not among the sources. A module is its kernel map, from names to
  kernels, in the order of the map; a kernel has the size of its dataflow graph (a
  \<open>size_t\<close>) and the blocks of its control-flow graph in iteration order, each with its
  label. \<open>find\<close> on the map is \<open>map_of\<close>; a name that is not found gives \<open>end()\<close>.
\<close>

record BasicBlock =
  label :: string

record Kernel =
  dfgSize :: size_t
  cfg :: "BasicBlock list"

type_synonym KernelMap = "(string \<times> Kernel) list"

text \<open>\<open>basicBlocks += kernel->dfg()->size()\<close>: added in \<open>size_t\<close>, stored as \<open>unsigned int\<close>.\<close>

fun sumKernels :: "uint \<Rightarrow> KernelMap \<Rightarrow> uint" where
  "sumKernels bb [] = bb"
| "sumKernels bb ((name, kern) # ks) = sumKernels (ucast (ucast bb + dfgSize kern)) ks"

fun pushLabels :: "string list \<Rightarrow> BasicBlock list \<Rightarrow> string list" where
  "pushLabels ls [] = ls"
| "pushLabels ls (basicBlock # bs) =
     (if label basicBlock = ''entry'' \<or> label basicBlock = ''exit'' then pushLabels ls bs
      else pushLabels (ls @ [label basicBlock]) bs)"

definition analyze :: "KernelMap \<Rightarrow> BasicBlockInstrumentor \<Rightarrow> Fault + BasicBlockInstrumentor" where
  "analyze kernels s =
     (let s0 = s\<lparr>basicBlocks := 0\<rparr> in
      case (if kernelName s0 \<noteq> [] then
              (case map_of kernels (kernelName s0) of
                 None \<Rightarrow> Inl EndIteratorDereferenced
               | Some kern \<Rightarrow> Inr (s0\<lparr>basicBlocks := ucast (dfgSize kern - 2)\<rparr>))
            else Inr (s0\<lparr>basicBlocks := sumKernels (basicBlocks s0) kernels\<rparr>)) of
        Inl f \<Rightarrow> Inl f
      | Inr s1 \<Rightarrow>
          (case map_of kernels (kernelName s1) of
             None \<Rightarrow> Inl EndIteratorDereferenced
           | Some kern \<Rightarrow> Inr (s1\<lparr>labels := pushLabels (labels s1) (cfg kern)\<rparr>)))"

subsection \<open>Devices of the proofs about extractResults\<close>

text \<open>
  \<open>bumped m m' f S\<close>: the map \<open>m'\<close> reads as \<open>m\<close> plus \<open>f\<close> at every key, and agrees
  with \<open>m\<close> outside \<open>S\<close>. \<open>bumpedIf c\<close> is that when \<open>c\<close> holds, and an unchanged map
  otherwise.
\<close>

definition bumped :: "(size_t \<rightharpoonup> size_t) \<Rightarrow> (size_t \<rightharpoonup> size_t) \<Rightarrow> (size_t \<Rightarrow> size_t) \<Rightarrow> size_t set \<Rightarrow> bool" where
  "bumped m m' f S = ((\<forall>b. mapAt m' b = mapAt m b + f b) \<and> (\<forall>b. b \<notin> S \<longrightarrow> m' b = m b))"

definition bumpedIf :: "bool \<Rightarrow> (size_t \<rightharpoonup> size_t) \<Rightarrow> (size_t \<rightharpoonup> size_t) \<Rightarrow> (size_t \<Rightarrow> size_t) \<Rightarrow> size_t set \<Rightarrow> bool" where
  "bumpedIf c m m' f S = (if c then bumped m m' f S else m' = m)"

text \<open>
  The counter array has the size of the layout, the layout has at least one entry per
  block, and two when the memory-operation entry is read.
\<close>

definition wellSized :: "BasicBlockInstrumentor \<Rightarrow> size_t list \<Rightarrow> bool" where
  "wellSized s info =
     (length info = unat (entries s) * unat (basicBlocks s) * unat (threadBlocks s) * unat (threads s)
      \<and> length info < 2 ^ 64 \<and> 0 < entries s
      \<and> (type s = memoryIntensity \<longrightarrow> 2 \<le> entries s))"

definition rd :: "BasicBlockInstrumentor \<Rightarrow> size_t list \<Rightarrow> size_t \<Rightarrow> size_t \<Rightarrow> size_t \<Rightarrow> nat \<Rightarrow> size_t" where
  "rd s info b e k t =
     info ! unat (flatIndex (entries s) (basicBlocks s) (threads s) b e (of_nat t) k)"

text \<open>
  The instrumentor and the counter array of the regression test of the specification:
  2 entries, 3 basic blocks, 2 thread blocks and 4 threads, the slot of
  \<open>(b, e, t, k)\<close> holding \<open>1000 * b + 100 * e + 10 * t + k\<close>.
\<close>

abbreviation regressionInstrumentor :: BasicBlockInstrumentor where
  "regressionInstrumentor \<equiv>
     \<lparr>kernelName = ''k'', labels = [''BB_1'', ''BB_2'', ''BB_3''], threads = 4, threadBlocks = 2,
      basicBlocks = 3, entries = 2, type = memoryIntensity,
      kernelProfile = \<lparr>basicBlockExecutionCountMap = Map.empty, memoryOperationsMap = Map.empty\<rparr>\<rparr>"

abbreviation regressionInfo :: "size_t list" where
  "regressionInfo \<equiv>
     [0, 100, 10, 110, 20, 120, 30, 130,
      1000, 1100, 1010, 1110, 1020, 1120, 1030, 1130,
      2000, 2100, 2010, 2110, 2020, 2120, 2030, 2130,
      1, 101, 11, 111, 21, 121, 31, 131,
      1001, 1101, 1011, 1111, 1021, 1121, 1031, 1131,
      2001, 2101, 2011, 2111, 2021, 2121, 2031, 2131]"

text \<open>A module of two kernels, to run \<open>analyze\<close> on.\<close>

abbreviation sampleModule :: KernelMap where
  "sampleModule \<equiv>
     [(''kernelA'', \<lparr>dfgSize = 3,
         cfg = [\<lparr>label = ''entry''\<rparr>, \<lparr>label = ''BB_1''\<rparr>, \<lparr>label = ''exit''\<rparr>]\<rparr>),
      (''kernelB'', \<lparr>dfgSize = 4,
         cfg = [\<lparr>label = ''entry''\<rparr>, \<lparr>label = ''BB_1''\<rparr>, \<lparr>label = ''BB_2''\<rparr>, \<lparr>label = ''exit''\<rparr>]\<rparr>)]"

section \<open>MemoryTraceGenerator\<close>

subsection \<open>Data\<close>

text \<open>
  Modelled from the spec: the enumeration \<open>PTXInstruction::AddressSpace\<close>, declared in a
  header that is not among the sources: the six address spaces of the specification,
  which \<open>Header::access\<close> and \<open>Header::address\<close> switch on, and \<open>AddressSpace_Invalid\<close>,
  which \<open>extent\<close> tests for and both switches send to \<open>default\<close>.
\<close>

datatype AddressSpace = AddressSpace_Invalid | Const | Global | Local | Param | Shared | Texture

text \<open>
  Modelled from the spec: the enumeration \<open>PTXInstruction::Opcode\<close>, declared in a
  header that is not among the sources: the three opcodes that \<open>event\<close> tests for, and
  \<open>OtherOpcode\<close> for every other enumerator.
\<close>

datatype Opcode = Ld | St | Tex | OtherOpcode nat

record PTXInstruction =
  opcode :: Opcode
  addressSpace :: AddressSpace

record Dim3 =
  dimX :: uint
  dimY :: uint
  dimZ :: uint

text \<open>
  Modelled from the spec: what \<open>event\<close> reads of a \<open>TraceEvent\<close>, whose header is not
  among the sources: the program counter, the instruction (its opcode and address
  space), the coordinates of the thread block, the active mask (a bit per lane), and
  the vectors \<open>memory_addresses\<close> (a \<open>U64Vector\<close>) and \<open>memory_sizes\<close> (a \<open>U32Vector\<close>),
  which hold one element per active lane.
\<close>

record TraceEvent =
  PC :: PTXU64
  instruction :: PTXInstruction
  blockId :: Dim3
  active :: "bool list"
  memory_addresses :: "PTXU64 list"
  memory_sizes :: "PTXU32 list"

text \<open>
  Modelled from the spec: the types of the fields of \<open>Header\<close>, which is declared in
  MemoryTraceGenerator.h, not among the sources. The fields are the ones that the
  constructor \<open>Header::Header()\<close> and \<open>initialize\<close> assign; the counters, byte totals
  and addresses are taken as \<open>PTXU64\<close>, the type of the values added to them, and
  \<open>thread_count\<close> as \<open>PTXU32\<close>, the type of the \<open>halfwarpSize\<close> and \<open>threadID\<close> that it is
  halved into and compared with. \<open>header_headerOnly\<close> is the field \<open>headerOnly\<close> of the
  header.
\<close>

record Header =
  blockDimX :: uint
  blockDimY :: uint
  blockDimZ :: uint
  thread_count :: PTXU32
  dynamic_instructions :: PTXU64
  dynamic_operations :: PTXU64
  const_accesses :: PTXU64
  global_accesses :: PTXU64
  local_accesses :: PTXU64
  param_accesses :: PTXU64
  shared_accesses :: PTXU64
  texture_accesses :: PTXU64
  global_min_address :: PTXU64
  global_max_address :: PTXU64
  global_instructions :: PTXU64
  texture_instructions :: PTXU64
  global_bytes :: PTXU64
  shared_bytes :: PTXU64
  texture_bytes :: PTXU64
  global_words :: PTXU64
  texture_words :: PTXU64
  global_extent :: PTXU64
  global_segments :: PTXU64
  halfwarps :: PTXU64
  header_headerOnly :: bool

text \<open>\<open>Header::Header()\<close>; the block dimensions are left as they are.\<close>

definition newHeader :: Header where
  "newHeader =
     \<lparr>blockDimX = 0, blockDimY = 0, blockDimZ = 0,
      thread_count = 0, dynamic_instructions = 0, dynamic_operations = 0,
      const_accesses = 0, global_accesses = 0, local_accesses = 0, param_accesses = 0,
      shared_accesses = 0, texture_accesses = 0,
      global_min_address = 0, global_max_address = 0,
      global_instructions = 0, texture_instructions = 0,
      global_bytes = 0, shared_bytes = 0, texture_bytes = 0,
      global_words = 0, texture_words = 0, global_extent = 0,
      global_segments = 0, halfwarps = 0, header_headerOnly = False\<rparr>"

text \<open>
  Modelled from the spec: the classes \<open>Access\<close>, \<open>Event\<close> and \<open>TraceEntry\<close>, declared in
  headers that are not among the sources, with the fields that \<open>event\<close>, \<open>initialize\<close>
  and \<open>finish\<close> assign: an access is an address, a size in bytes and the originating
  thread; an event is a program counter, an opcode, an address space, the coordinates
  of the thread block and its accesses in order; a trace entry is a kernel name, a
  module path and the paths of the access log and of the header.
\<close>

record Access =
  address :: PTXU64
  threadID :: PTXU32
  size_bytes :: PTXU32

record Event =
  event_PC :: PTXU64
  event_opcode :: Opcode
  event_addressSpace :: AddressSpace
  ctaX :: uint
  ctaY :: uint
  ctaZ :: uint
  accesses :: "Access list"

record TraceEntry =
  entry_name :: string
  entry_module :: string
  entry_path :: string
  entry_header :: string

text \<open>
  Modelled from the spec: the members of the generator, which MemoryTraceGenerator.h
  declares (not among the sources): \<open>_header\<close>, \<open>_event\<close>, \<open>headerOnly\<close>, \<open>_file\<close>,
  \<open>_archive\<close>, \<open>_entry\<close> and \<open>database\<close>. \<open>file_stream\<close> is the pointer \<open>_file\<close>: \<open>None\<close>
  when it is null, the path of the open access log otherwise. \<open>archive\<close> is what has
  been written through \<open>_archive\<close>: the events serialized so far, in order.
\<close>

record MemoryTraceGenerator =
  header :: Header
  event_record :: Event
  headerOnly :: bool
  file_stream :: "string option"
  archive :: "Event list"
  entry :: TraceEntry
  database :: string

subsection \<open>Header::access and Header::address\<close>

definition Header_access :: "Header \<Rightarrow> AddressSpace \<Rightarrow> PTXU64 \<Rightarrow> Header" where
  "Header_access h space bytes =
     (case space of
        Const \<Rightarrow> h\<lparr>const_accesses := const_accesses h + 1\<rparr>
      | Global \<Rightarrow> h\<lparr>global_accesses := global_accesses h + 1,
                    global_bytes := global_bytes h + bytes,
                    global_instructions := global_instructions h + 1\<rparr>
      | Local \<Rightarrow> h\<lparr>local_accesses := local_accesses h + 1\<rparr>
      | Param \<Rightarrow> h\<lparr>param_accesses := param_accesses h + 1\<rparr>
      | Shared \<Rightarrow> h\<lparr>shared_accesses := shared_accesses h + 1,
                    shared_bytes := shared_bytes h + bytes\<rparr>
      | Texture \<Rightarrow> h\<lparr>texture_accesses := texture_accesses h + 1,
                     texture_bytes := texture_bytes h + bytes,
                     texture_instructions := texture_instructions h + 1\<rparr>
      | AddressSpace_Invalid \<Rightarrow> h)"

text \<open>
  The two \<open>if\<close> statements shared by the \<open>Texture\<close> and \<open>Global\<close> cases of
  \<open>Header::address\<close>.
\<close>

definition updateExtrema :: "Header \<Rightarrow> PTXU64 \<Rightarrow> Header" where
  "updateExtrema h addr =
     (let h1 = (if global_min_address h = 0 \<or> addr < global_min_address h
                then h\<lparr>global_min_address := addr\<rparr> else h)
      in if global_max_address h1 = 0 \<or> addr > global_max_address h1
         then h1\<lparr>global_max_address := addr\<rparr> else h1)"

definition Header_address :: "Header \<Rightarrow> AddressSpace \<Rightarrow> PTXU64 \<Rightarrow> Header" where
  "Header_address h space addr =
     (case space of
        Const \<Rightarrow> h
      | Texture \<Rightarrow> (let h1 = updateExtrema h addr in h1\<lparr>texture_words := texture_words h1 + 1\<rparr>)
      | Global \<Rightarrow> (let h1 = updateExtrema h addr in h1\<lparr>global_words := global_words h1 + 1\<rparr>)
      | Local \<Rightarrow> h
      | Param \<Rightarrow> h
      | Shared \<Rightarrow> h
      | AddressSpace_Invalid \<Rightarrow> h)"

text \<open>Feeding a sequence of addresses of one space to a header, in order.\<close>

fun addressAll :: "Header \<Rightarrow> AddressSpace \<Rightarrow> PTXU64 list \<Rightarrow> Header" where
  "addressAll h space [] = h"
| "addressAll h space (addr # addrs) = addressAll (Header_address h space addr) space addrs"

subsection \<open>event\<close>

text \<open>
  \<open>for (; threadID < _header.thread_count && !event.active[threadID]; threadID++) { }\<close>:
  the scan to the next active lane. Reading the bit set outside its size is a fault.
\<close>

function skipInactive :: "bool list \<Rightarrow> PTXU32 \<Rightarrow> PTXU32 \<Rightarrow> Fault + PTXU32" where
  "skipInactive act tc tid =
     (if tid < tc then
        (if unat tid < length act then
           (if \<not> act ! unat tid then skipInactive act tc (tid + 1) else Inr tid)
         else Inl OutOfBounds)
      else Inr tid)"
  by pat_completeness auto
termination
proof (relation "measure (\<lambda>(act, tc, tid). unat tc - unat tid)")
  fix act :: "bool list" and tc tid :: PTXU32
  assume lt: "tid < tc"
  then have "unat (tid + 1) = Suc (unat tid)" by unat_arith
  moreover have "unat tid < unat tc" using lt by (simp add: word_less_nat_alt)
  ultimately show "((act, tc, tid + 1), (act, tc, tid)) \<in> measure (\<lambda>(act, tc, tid). unat tc - unat tid)"
    by simp
qed simp

declare skipInactive.simps [simp del]

text \<open>
  The variables of the loop over \<open>memory_addresses\<close>: the header, the event under
  construction, \<open>bytes\<close>, \<open>threadID\<close> and \<open>starting_address\<close>.
\<close>

record LaneState =
  ls_header :: Header
  ls_event :: Event
  ls_bytes :: PTXU64
  ls_threadID :: PTXU32
  ls_starting_address :: PTXU64

text \<open>
  The two branches that count a segment: the lane beyond the half warp, and the address
  that is not \<open>starting_address\<close>.
\<close>

definition countSegment :: "PTXU32 \<Rightarrow> PTXU64 \<Rightarrow> PTXU32 \<Rightarrow> LaneState \<Rightarrow> LaneState" where
  "countSegment halfwarpSize addr sz st =
     (if ls_threadID st > halfwarpSize then
        st\<lparr>ls_header := (ls_header st)\<lparr>global_segments := global_segments (ls_header st) + 1,
                                         halfwarps := halfwarps (ls_header st) + 1\<rparr>,
           ls_starting_address := addr + ucast sz\<rparr>
      else if ls_starting_address st \<noteq> addr then
        st\<lparr>ls_header := (ls_header st)\<lparr>global_segments := global_segments (ls_header st) + 1\<rparr>,
           ls_starting_address := addr + ucast sz\<rparr>
      else st)"

text \<open>
  The loop over \<open>memory_addresses\<close>, with \<open>size_it\<close> walking \<open>memory_sizes\<close> beside it
  (reading it past its end is a fault). The loops of the load/store branch and of the
  texture branch differ in the number of \<open>Access\<close> records pushed for a lane (\<open>copies\<close>:
  1 and 4) and in the address space given to \<open>Header::address\<close> (\<open>space\<close>: the one of
  the instruction, and \<open>Texture\<close>); \<open>ho\<close> is \<open>headerOnly\<close>.
\<close>

fun laneLoop ::
  "bool \<Rightarrow> nat \<Rightarrow> AddressSpace \<Rightarrow> bool list \<Rightarrow> PTXU32 \<Rightarrow> PTXU64 list \<Rightarrow> PTXU32 list
     \<Rightarrow> LaneState \<Rightarrow> Fault + LaneState" where
  "laneLoop ho copies space act halfwarpSize [] sizes st = Inr st"
| "laneLoop ho copies space act halfwarpSize (addr # addrs) [] st = Inl OutOfBounds"
| "laneLoop ho copies space act halfwarpSize (addr # addrs) (sz # sizes) st =
     (case (if \<not> ho then
              (case skipInactive act (thread_count (ls_header st)) (ls_threadID st) of
                 Inl f \<Rightarrow> Inl f
               | Inr tid \<Rightarrow>
                   Inr (st\<lparr>ls_threadID := tid,
                          ls_event := (ls_event st)\<lparr>accesses := accesses (ls_event st)
                             @ replicate copies \<lparr>address = addr, threadID = tid, size_bytes = sz\<rparr>\<rparr>\<rparr>))
            else Inr st) of
        Inl f \<Rightarrow> Inl f
      | Inr st1 \<Rightarrow>
          (let st2 = st1\<lparr>ls_header := Header_address (ls_header st1) space addr,
                         ls_bytes := ls_bytes st1 + ucast sz\<rparr>;
               st3 = countSegment halfwarpSize addr sz st2
           in laneLoop ho copies space act halfwarpSize addrs sizes
                (st3\<lparr>ls_threadID := ls_threadID st3 + 1\<rparr>)))"

text \<open>\<open>_event = Event()\<close> followed by the assignments of its fields.\<close>

definition newEvent :: "TraceEvent \<Rightarrow> AddressSpace \<Rightarrow> Event" where
  "newEvent ev space =
     \<lparr>event_PC = PC ev, event_opcode = opcode (instruction ev), event_addressSpace = space,
      ctaX = dimX (blockId ev), ctaY = dimY (blockId ev), ctaZ = dimZ (blockId ev),
      accesses = []\<rparr>"

text \<open>\<open>event.active.count()\<close>\<close>

definition activeCount :: "bool list \<Rightarrow> nat" where
  "activeCount act = length (filter (\<lambda>a. a) act)"

text \<open>
  The body shared by the two branches of \<open>event\<close>, from the construction of
  \<open>_event\<close> to its serialization.
\<close>

definition traceAccesses ::
  "MemoryTraceGenerator \<Rightarrow> TraceEvent \<Rightarrow> nat \<Rightarrow> AddressSpace \<Rightarrow> Fault + MemoryTraceGenerator" where
  "traceAccesses g ev copies space =
     (let e0 = (if \<not> headerOnly g then newEvent ev space else event_record g);
          st0 = \<lparr>ls_header = header g, ls_event = e0, ls_bytes = 0, ls_threadID = 0,
                 ls_starting_address = - 1\<rparr>
      in case laneLoop (headerOnly g) copies space (active ev) (thread_count (header g) div 2)
                (memory_addresses ev) (memory_sizes ev) st0 of
           Inl f \<Rightarrow> Inl f
         | Inr st \<Rightarrow>
             Inr (g\<lparr>header := Header_access (ls_header st) space (ls_bytes st),
                    event_record := ls_event st,
                    archive := (if \<not> headerOnly g then archive g @ [ls_event st] else archive g)\<rparr>))"

definition event :: "MemoryTraceGenerator \<Rightarrow> TraceEvent \<Rightarrow> Fault + MemoryTraceGenerator" where
  "event g ev =
     (let g1 = g\<lparr>header := (header g)\<lparr>
                  dynamic_instructions := dynamic_instructions (header g) + 1,
                  dynamic_operations := dynamic_operations (header g) + of_nat (activeCount (active ev))\<rparr>\<rparr>
      in if opcode (instruction ev) = Ld \<or> opcode (instruction ev) = St then
           traceAccesses g1 ev 1 (addressSpace (instruction ev))
         else if opcode (instruction ev) = Tex then
           traceAccesses g1 ev 4 Texture
         else Inr g1)"

text \<open>A sequence of events, processed in order; the first fault ends it.\<close>

fun events :: "MemoryTraceGenerator \<Rightarrow> TraceEvent list \<Rightarrow> Fault + MemoryTraceGenerator" where
  "events g [] = Inr g"
| "events g (ev # evs) = (case event g ev of Inl f \<Rightarrow> Inl f | Inr g1 \<Rightarrow> events g1 evs)"

subsection \<open>finish\<close>

text \<open>
  What \<open>finish\<close> does outside the generator: the entries registered in trace databases
  (\<open>_entry.updateDatabase(database)\<close>), and the headers serialized to header files.
\<close>

record World =
  registered :: "(string \<times> TraceEntry) list"
  headers_written :: "(string \<times> Header) list"

text \<open>
  \<open>finish\<close>. \<open>canOpen\<close> tells whether opening a path for writing succeeds. The result
  is the world and the generator after the call, and the exception thrown, if any.
\<close>

definition finish ::
  "(string \<Rightarrow> bool) \<Rightarrow> World \<Rightarrow> MemoryTraceGenerator
     \<Rightarrow> World \<times> MemoryTraceGenerator \<times> Exception option" where
  "finish canOpen w g =
     (case file_stream g of
        None \<Rightarrow> (w, g, None)
      | Some path \<Rightarrow>
          (let w1 = w\<lparr>registered := registered w @ [(database g, entry g)]\<rparr>;
               g1 = g\<lparr>file_stream := None\<rparr>
           in if \<not> canOpen (entry_header (entry g1)) then
                (w1, g1, Some (Exception (''Failed to open MemoryTraceGenerator header file ''
                                            @ entry_header (entry g1))))
              else (w1\<lparr>headers_written := headers_written w1 @ [(entry_header (entry g1), header g1)]\<rparr>,
                    g1, None)))"

subsection \<open>extent\<close>

text \<open>
  Modelled from the spec: the enumeration \<open>PTXOperand::DataType\<close>, declared in a header
  that is not among the sources: the twelve integer types of declared width 8, 16, 32
  and 64 bits that the switch of \<open>extent\<close> names, and \<open>otherDataType\<close> for every
  enumerator it sends to \<open>default\<close>.
\<close>

datatype DataType =
    b8 | s8 | u8 | b16 | s16 | u16 | b32 | s32 | u32 | b64 | s64 | u64 | otherDataType

text \<open>
  Modelled from the spec: the element type of \<open>Parameter::arrayValues\<close>, declared in a
  header that is not among the sources. An element holds the raw bytes of a value,
  read through the integer views \<open>val_u8\<close>, \<open>val_u16\<close>, \<open>val_u32\<close> and \<open>val_u64\<close> of the
  same eight bytes; on a little-endian machine the narrower views are the low bits of
  \<open>val_u64\<close>.
\<close>

type_synonym ValueType = PTXU64

definition val_u8 :: "ValueType \<Rightarrow> 8 word" where
  "val_u8 v = ucast v"

definition val_u16 :: "ValueType \<Rightarrow> 16 word" where
  "val_u16 v = ucast v"

definition val_u32 :: "ValueType \<Rightarrow> 32 word" where
  "val_u32 v = ucast v"

definition val_u64 :: "ValueType \<Rightarrow> 64 word" where
  "val_u64 v = v"

text \<open>
  Modelled from the spec: a kernel parameter (its declared type, the field \<open>type\<close>, and
  its array of values), the architecture tag of an allocation (\<open>Unknown\<close> when the
  query found none), and the answers of the two allocation queries: the identity
  \<open>ptr\<close>, the size, and the address space or the architecture that tells whether the
  address was found. Their headers are not among the sources.
\<close>

record Parameter =
  paramType :: DataType
  arrayValues :: "ValueType list"

datatype ISA = Unknown | OtherISA nat

record GlobalMemoryAllocation =
  global_ptr :: PTXU64
  global_size :: PTXU64
  global_space :: AddressSpace

record MemoryAllocation =
  alloc_ptr :: PTXU64
  alloc_size :: PTXU64
  alloc_isa :: ISA

text \<open>
  Modelled from the spec: what \<open>extent\<close> reads of the kernel, whose header is not among
  the sources: its parameters, and the two queries on its context,
  \<open>getGlobalMemoryAllocation\<close> and \<open>getMemoryAllocation\<close> of the selected device, each
  a function of the address.
\<close>

record ExecutableKernel =
  parameters :: "Parameter list"
  getGlobalMemoryAllocation :: "PTXU64 \<Rightarrow> GlobalMemoryAllocation"
  getMemoryAllocation :: "PTXU64 \<Rightarrow> MemoryAllocation"

text \<open>The switch on the parameter's type: the address after the element.\<close>

definition packElement :: "DataType \<Rightarrow> PTXU64 \<Rightarrow> ValueType \<Rightarrow> PTXU64" where
  "packElement ty addr element =
     (if ty = b8 \<or> ty = s8 \<or> ty = u8 then push_bit 8 addr OR ucast (val_u8 element)
      else if ty = b16 \<or> ty = s16 \<or> ty = u16 then push_bit 16 addr OR ucast (val_u16 element)
      else if ty = b32 \<or> ty = s32 \<or> ty = u32 then push_bit 32 addr OR ucast (val_u32 element)
      else if ty = b64 \<or> ty = s64 \<or> ty = u64 then val_u64 element
      else addr)"

text \<open>
  What follows the switch: the two queries, and \<open>encountered.insert(ptr).second\<close>,
  which is true when the pointer was not in the set. The state is the set
  \<open>encountered\<close> and the running \<open>extent\<close>.
\<close>

definition checkAddress ::
  "ExecutableKernel \<Rightarrow> PTXU64 \<Rightarrow> PTXU64 set \<times> PTXU64 \<Rightarrow> PTXU64 set \<times> PTXU64" where
  "checkAddress kern addr st =
     (let global = getGlobalMemoryAllocation kern addr in
      if global_space global \<noteq> AddressSpace_Invalid then
        (if global_ptr global \<notin> fst st
         then (insert (global_ptr global) (fst st), snd st + global_size global)
         else st)
      else
        (let allocation = getMemoryAllocation kern addr in
         if alloc_isa allocation \<noteq> Unknown then
           (if alloc_ptr allocation \<notin> fst st
            then (insert (alloc_ptr allocation) (fst st), snd st + alloc_size allocation)
            else st)
         else st))"

fun elementLoop ::
  "ExecutableKernel \<Rightarrow> DataType \<Rightarrow> ValueType list \<Rightarrow> PTXU64 \<Rightarrow> PTXU64 set \<times> PTXU64
     \<Rightarrow> PTXU64 set \<times> PTXU64" where
  "elementLoop kern ty [] addr st = st"
| "elementLoop kern ty (element # elements) addr st =
     (let addr1 = packElement ty addr element
      in elementLoop kern ty elements addr1 (checkAddress kern addr1 st))"

fun parameterLoop ::
  "ExecutableKernel \<Rightarrow> Parameter list \<Rightarrow> PTXU64 set \<times> PTXU64 \<Rightarrow> PTXU64 set \<times> PTXU64" where
  "parameterLoop kern [] st = st"
| "parameterLoop kern (parameter # ps) st =
     parameterLoop kern ps (elementLoop kern (paramType parameter) (arrayValues parameter) 0 st)"

definition extent :: "ExecutableKernel \<Rightarrow> PTXU64" where
  "extent kern = snd (parameterLoop kern (parameters kern) ({}, 0))"

text \<open>
  The same in the words of the specification. The candidate addresses of a parameter,
  one per element; the allocation a candidate resolves to, as its identity and size,
  the global table first; and the hits of all the parameters in order.
\<close>

fun candidates :: "DataType \<Rightarrow> PTXU64 \<Rightarrow> ValueType list \<Rightarrow> PTXU64 list" where
  "candidates ty addr [] = []"
| "candidates ty addr (element # elements) =
     packElement ty addr element # candidates ty (packElement ty addr element) elements"

definition resolve :: "ExecutableKernel \<Rightarrow> PTXU64 \<Rightarrow> (PTXU64 \<times> PTXU64) option" where
  "resolve kern addr =
     (if global_space (getGlobalMemoryAllocation kern addr) \<noteq> AddressSpace_Invalid
      then Some (global_ptr (getGlobalMemoryAllocation kern addr),
                 global_size (getGlobalMemoryAllocation kern addr))
      else if alloc_isa (getMemoryAllocation kern addr) \<noteq> Unknown
      then Some (alloc_ptr (getMemoryAllocation kern addr),
                 alloc_size (getMemoryAllocation kern addr))
      else None)"

definition hits :: "ExecutableKernel \<Rightarrow> (PTXU64 \<times> PTXU64) list" where
  "hits kern =
     concat (map (\<lambda>p. List.map_filter (resolve kern) (candidates (paramType p) 0 (arrayValues p)))
                 (parameters kern))"

text \<open>The size an identity was first found with.\<close>

definition firstSize :: "(PTXU64 \<times> PTXU64) list \<Rightarrow> PTXU64 \<Rightarrow> PTXU64" where
  "firstSize hs p = (case map_of hs p of None \<Rightarrow> 0 | Some sz \<Rightarrow> sz)"

subsection \<open>Devices of the proofs about the trace generator\<close>

text \<open>The two address spaces whose addresses \<open>Header::address\<close> records.\<close>

definition tracedSpace :: "AddressSpace \<Rightarrow> bool" where
  "tracedSpace sp = (sp = Global \<or> sp = Texture)"

text \<open>The fields of the header that only \<open>event\<close> itself writes or reads.\<close>

definition sameCounters :: "Header \<Rightarrow> Header \<Rightarrow> bool" where
  "sameCounters h h' =
     (dynamic_instructions h' = dynamic_instructions h
      \<and> dynamic_operations h' = dynamic_operations h
      \<and> thread_count h' = thread_count h)"

text \<open>
  \<open>encountered.insert(ptr).second\<close> and the addition it guards, for one hit.
\<close>

definition addHit :: "PTXU64 set \<times> PTXU64 \<Rightarrow> PTXU64 \<times> PTXU64 \<Rightarrow> PTXU64 set \<times> PTXU64" where
  "addHit st hit = (if fst hit \<notin> fst st then (insert (fst hit) (fst st), snd st + snd hit) else st)"

text \<open>
  A generator for a kernel of 8 threads, a load of the global space, and a kernel
  with three parameters and two allocations, to run the functions on; and the two
  segment counters of the header that a call of \<open>event\<close> leaves.
\<close>

definition segmentCounts :: "Fault + MemoryTraceGenerator \<Rightarrow> (PTXU64 \<times> PTXU64) option" where
  "segmentCounts r =
     (case r of Inl f \<Rightarrow> None | Inr g \<Rightarrow> Some (global_segments (header g), halfwarps (header g)))"

abbreviation sampleGenerator :: "bool \<Rightarrow> MemoryTraceGenerator" where
  "sampleGenerator ho \<equiv>
     \<lparr>header = newHeader\<lparr>thread_count := 8, header_headerOnly := ho\<rparr>,
      event_record = \<lparr>event_PC = 0, event_opcode = Ld, event_addressSpace = Global,
                      ctaX = 0, ctaY = 0, ctaZ = 0, accesses = []\<rparr>,
      headerOnly = ho, file_stream = Some ''kernel_0.trace'', archive = [],
      entry = \<lparr>entry_name = ''kernel'', entry_module = ''module.ptx'',
               entry_path = ''kernel_0.trace'', entry_header = ''kernel_0.header''\<rparr>,
      database = ''traces.db''\<rparr>"

abbreviation sampleLoad :: "bool list \<Rightarrow> PTXU64 list \<Rightarrow> PTXU32 list \<Rightarrow> TraceEvent" where
  "sampleLoad act addrs sizes \<equiv>
     \<lparr>PC = 7, instruction = \<lparr>opcode = Ld, addressSpace = Global\<rparr>,
      blockId = \<lparr>dimX = 0, dimY = 0, dimZ = 0\<rparr>,
      active = act, memory_addresses = addrs, memory_sizes = sizes\<rparr>"

abbreviation sampleKernel :: ExecutableKernel where
  "sampleKernel \<equiv>
     \<lparr>parameters =
        [\<lparr>paramType = u64, arrayValues = [0x1000]\<rparr>,
         \<lparr>paramType = u32, arrayValues = [0, 0x1010]\<rparr>,
         \<lparr>paramType = u8, arrayValues = [0x112, 0x34]\<rparr>],
      getGlobalMemoryAllocation =
        (\<lambda>a. if 0x1000 \<le> a \<and> a < 0x1100
             then \<lparr>global_ptr = 0x1000, global_size = 0x100, global_space = Global\<rparr>
             else \<lparr>global_ptr = 0, global_size = 0, global_space = AddressSpace_Invalid\<rparr>),
      getMemoryAllocation =
        (\<lambda>a. if 0x1200 \<le> a \<and> a < 0x1300
             then \<lparr>alloc_ptr = 0x1200, alloc_size = 0x100, alloc_isa = OtherISA 1\<rparr>
             else \<lparr>alloc_ptr = 0, alloc_size = 0, alloc_isa = Unknown\<rparr>)\<rparr>"

section \<open>Properties of BasicBlockInstrumentor\<close>

subsection \<open>The counter index\<close>

lemma radix_bound:
  fixes a n q m :: nat
  assumes "a < n" "q < m"
  shows "a + n * q < n * m"
proof -
  have "a + n * q < n + n * q" using assms by simp
  also have "\<dots> = n * Suc q" by simp
  also have "\<dots> \<le> n * m" using assms by (intro mult_le_mono2) simp
  finally show ?thesis .
qed

lemma radix_inj:
  fixes a a' n q q' :: nat
  assumes "a < n" "a' < n" "a + n * q = a' + n * q'"
  shows "a = a' \<and> q = q'"
proof -
  have "(a + n * q) mod n = (a' + n * q') mod n" using assms(3) by (rule arg_cong)
  then have 1: "a = a'" using assms(1,2) by simp
  have "(a + n * q) div n = (a' + n * q') div n" using assms(3) by (rule arg_cong)
  then have "q = q'" using assms(1,2) by simp
  with 1 show ?thesis by simp
qed

lemma natIndex_radix: "natIndex E B T b e t k = e + E * (t + T * (b + B * k))"
  by (simp add: natIndex_def algebra_simps)

lemma natIndex_less:
  assumes "b < B" "e < E" "t < T" "k < K"
  shows "natIndex E B T b e t k < E * B * K * T"
proof -
  have "b + B * k < B * K" using assms by (intro radix_bound)
  then have "t + T * (b + B * k) < T * (B * K)" using assms by (intro radix_bound)
  then have "e + E * (t + T * (b + B * k)) < E * (T * (B * K))" using assms by (intro radix_bound)
  then show ?thesis by (simp add: natIndex_radix mult_ac)
qed

lemma natIndex_inj:
  assumes "b < B" "e < E" "t < T" 
      and "b' < B" "e' < E" "t' < T" 
      and "natIndex E B T b e t k = natIndex E B T b' e' t' k'"
  shows "b = b' \<and> e = e' \<and> t = t' \<and> k = k'"
proof -
  from assms(7) have eq: "e + E * (t + T * (b + B * k)) = e' + E * (t' + T * (b' + B * k'))"
    by (simp only: natIndex_radix)
  from radix_inj [OF assms(2) assms(5) eq] have 1: "e = e'" and eq2: "t + T * (b + B * k) = t' + T * (b' + B * k')" by simp_all
  from radix_inj [OF assms(3) assms(6) eq2] have 2: "t = t'" and eq3: "b + B * k = b' + B * k'" by simp_all
  from radix_inj [OF assms(1) assms(4) eq3] have "b = b'" "k = k'" by simp_all
  with 1 2 show ?thesis by simp
qed

lemma natIndex_max:
  assumes "0 < B" "0 < E" "0 < T" "0 < K"
  shows "natIndex E B T (B - 1) (E - 1) (T - 1) (K - 1) = E * B * K * T - 1"
proof -
  have r: "(n - 1) + n * (m - 1) = n * m - 1" if "0 < n" "0 < m" for n m :: nat
  proof (cases n)
    case 0
    then show ?thesis using that by simp
  next
    case n: (Suc n')
    show ?thesis
    proof (cases m)
      case 0
      then show ?thesis using that by simp
    next
      case (Suc m')
      with n show ?thesis by simp
    qed
  qed
  have "0 < B * K" "0 < T * (B * K)" using assms by simp_all
  then have "B - 1 + B * (K - 1) = B * K - 1" "T - 1 + T * (B * K - 1) = T * (B * K) - 1"
    "E - 1 + E * (T * (B * K) - 1) = E * (T * (B * K)) - 1"
    using assms by (simp_all only: r)
  then show ?thesis by (simp only: natIndex_radix mult_ac)
qed

lemma unat_ucast_uint [simp]: "unat (ucast (x :: uint) :: size_t) = unat x"
proof -
  have "unat x < 2 ^ 32" using unsigned_less [of x, where 'a = nat] by simp
  then have "unat x < 2 ^ 64" by simp
  then show ?thesis by (simp add: unsigned_ucast_eq take_bit_nat_eq_self)
qed

lemma unat_flatIndex:
  assumes nov: "unat en * unat bb * unat tb * unat th < 2 ^ 64"
      and v: "inIndexSpace en bb tb th b e t k"
  shows "unat (flatIndex en bb th b e t k) = natIndex (unat en) (unat bb) (unat th) (unat b) (unat e) (unat t) (unat k)"
proof -
  let ?N = "natIndex (unat en) (unat bb) (unat th) (unat b) (unat e) (unat t) (unat k)"
  have lt: "unat b < unat bb" "unat e < unat en" "unat t < unat th" "unat k < unat tb"
    using v by (simp_all add: inIndexSpace_def word_less_nat_alt)
  have "?N < unat en * unat bb * unat tb * unat th" using lt by (intro natIndex_less)
  then have N: "?N < 2 ^ 64" using nov by simp
  have "flatIndex en bb th b e t k = of_nat ?N"
    by (simp add: flatIndex_def counterIndex_def natIndex_def)
  then have "unat (flatIndex en bb th b e t k) = unat (of_nat ?N :: size_t)" by simp
  also have "\<dots> = ?N" using N by (simp add: unat_of_nat)
  finally show ?thesis .
qed

lemma unat_totalElements:
  assumes nov: "unat en * unat bb * unat tb * unat th < 2 ^ 64"
  shows "unat (totalElements en bb tb th) = unat en * unat bb * unat tb * unat th"
proof -
  define P where "P = unat en * unat bb * unat tb * unat th"
  have "totalElements en bb tb th = of_nat P"
    by (simp add: totalElements_def P_def)
  then have "unat (totalElements en bb tb th) = unat (of_nat P :: size_t)"
    by simp
  also have "\<dots> = P" using nov by (simp add: unat_of_nat P_def [symmetric])
  finally show ?thesis by (simp add: P_def)
qed

lemma unat_minus_one_pos: "0 < (w :: 'a::len word) \<Longrightarrow> unat (w - 1) = unat w - 1"
  by (simp add: unat_minus_one word_neq_0_conv)

text \<open>
  Claim C1, as amended. When the number of elements
  \<open>entries * basicBlocks * threadBlocks * threads\<close> is below \<open>2 ^ 64\<close>, so that no
  \<open>size_t\<close> product wraps around: the flattened index is injective on the index space
  \<open>b < basicBlocks\<close>, \<open>e < entries\<close>, \<open>t < threads\<close>, \<open>k < threadBlocks\<close>; every index
  of the space is at most \<open>totalElements - 1\<close>; and, the four parameters being positive,
  the last point of the space has exactly the index \<open>totalElements - 1\<close>.
\<close>

theorem flatIndex_injective_max:
  assumes nov: "unat en * unat bb * unat tb * unat th < 2 ^ 64"
  shows "(inIndexSpace en bb tb th b e t k \<and> inIndexSpace en bb tb th b' e' t' k' \<and>
            flatIndex en bb th b e t k = flatIndex en bb th b' e' t' k'
            \<longrightarrow> b = b' \<and> e = e' \<and> t = t' \<and> k = k')
       \<and> (inIndexSpace en bb tb th b e t k
            \<longrightarrow> flatIndex en bb th b e t k \<le> totalElements en bb tb th - 1)
       \<and> (0 < en \<and> 0 < bb \<and> 0 < tb \<and> 0 < th
            \<longrightarrow> inIndexSpace en bb tb th (ucast bb - 1) (en - 1) (ucast th - 1) (ucast tb - 1)
              \<and> flatIndex en bb th (ucast bb - 1) (en - 1) (ucast th - 1) (ucast tb - 1)
                  = totalElements en bb tb th - 1)"
proof (intro conjI impI)
  assume a: "inIndexSpace en bb tb th b e t k \<and> inIndexSpace en bb tb th b' e' t' k' \<and>
            flatIndex en bb th b e t k = flatIndex en bb th b' e' t' k'"
  then have v: "inIndexSpace en bb tb th b e t k" and v': "inIndexSpace en bb tb th b' e' t' k'"
    and eq: "flatIndex en bb th b e t k = flatIndex en bb th b' e' t' k'" by simp_all
  have lt: "unat b < unat bb" "unat e < unat en" "unat t < unat th"
       "unat b' < unat bb" "unat e' < unat en" "unat t' < unat th"
    using v v' by (simp_all add: inIndexSpace_def word_less_nat_alt)
  have "natIndex (unat en) (unat bb) (unat th) (unat b) (unat e) (unat t) (unat k)
      = natIndex (unat en) (unat bb) (unat th) (unat b') (unat e') (unat t') (unat k')"
    using eq unat_flatIndex [OF nov v] unat_flatIndex [OF nov v'] by simp
  from natIndex_inj [OF lt this]
  have "unat b = unat b' \<and> unat e = unat e' \<and> unat t = unat t' \<and> unat k = unat k'" .
  then have "b = b'" "e = e'" "t = t'" "k = k'" by (simp_all add: word_unat_eq_iff)
  then show "b = b'" "e = e'" "t = t'" "k = k'" by simp_all
next
  assume v: "inIndexSpace en bb tb th b e t k"
  have lt: "unat b < unat bb" "unat e < unat en" "unat t < unat th" "unat k < unat tb"
    using v by (simp_all add: inIndexSpace_def word_less_nat_alt)
  have "unat (flatIndex en bb th b e t k) < unat en * unat bb * unat tb * unat th"
    using natIndex_less [OF lt] unat_flatIndex [OF nov v] by simp
  then have lt2: "unat (flatIndex en bb th b e t k) < unat (totalElements en bb tb th)"
    by (simp add: unat_totalElements [OF nov])
  then have "0 < totalElements en bb tb th" by (simp add: word_less_nat_alt)
  then have "unat (totalElements en bb tb th - 1) = unat (totalElements en bb tb th) - 1"
    by (rule unat_minus_one_pos)
  with lt2 show "flatIndex en bb th b e t k \<le> totalElements en bb tb th - 1"
    by (simp add: word_le_nat_alt)
next
  assume pos: "0 < en \<and> 0 < bb \<and> 0 < tb \<and> 0 < th"
  then have p: "0 < unat en" "0 < unat bb" "0 < unat tb" "0 < unat th"
    by (simp_all add: word_less_nat_alt)
  have q: "0 < (ucast bb :: size_t)" "0 < (ucast tb :: size_t)" "0 < (ucast th :: size_t)" "0 < en"
    using p pos by (simp_all add: word_less_nat_alt)
  have u: "unat (ucast bb - 1 :: size_t) = unat bb - 1" "unat (en - 1) = unat en - 1"
     "unat (ucast th - 1 :: size_t) = unat th - 1" "unat (ucast tb - 1 :: size_t) = unat tb - 1"
    using q by (simp_all add: unat_minus_one_pos)
  show v: "inIndexSpace en bb tb th (ucast bb - 1) (en - 1) (ucast th - 1) (ucast tb - 1)"
    using p u by (simp add: inIndexSpace_def word_less_nat_alt)
  have "0 < unat en * unat bb * unat tb * unat th" using p by simp
  then have "0 < totalElements en bb tb th"
    by (simp add: word_less_nat_alt unat_totalElements [OF nov])
  then have "unat (totalElements en bb tb th - 1) = unat en * unat bb * unat tb * unat th - 1"
    by (simp add: unat_minus_one_pos unat_totalElements [OF nov])
  moreover have "unat (flatIndex en bb th (ucast bb - 1) (en - 1) (ucast th - 1) (ucast tb - 1))
      = unat en * unat bb * unat tb * unat th - 1"
    using unat_flatIndex [OF nov v] natIndex_max [OF p(2) p(1) p(4) p(3)] by (simp add: u)
  ultimately show "flatIndex en bb th (ucast bb - 1) (en - 1) (ucast th - 1) (ucast tb - 1)
                  = totalElements en bb tb th - 1"
    by (simp add: word_unat_eq_iff)
qed

theorem flatIndex_injective_max_witness:
  "unat (2 :: size_t) * unat (3 :: uint) * unat (2 :: uint) * unat (4 :: uint) < 2 ^ 64
   \<and> inIndexSpace 2 3 2 4 1 0 2 1 \<and> inIndexSpace 2 3 2 4 2 1 3 1
   \<and> flatIndex 2 3 4 1 0 2 1 = 36
   \<and> flatIndex 2 3 4 2 1 3 1 = 47
   \<and> totalElements 2 3 2 4 - 1 = 47
   \<and> flatIndex 2 3 4 1 0 2 1 \<le> totalElements 2 3 2 4 - 1"
  using flatIndex_injective_max [of 2 3 2 4 1 0 2 1 2 1 3 1]
  by (simp add: inIndexSpace_def flatIndex_def counterIndex_def totalElements_def)

text \<open>
  The claim as stated, for all positive parameters, fails where the products wrap: with
  \<open>entries = 1\<close>, \<open>basicBlocks = 2 ^ 31\<close>, \<open>threadBlocks = 2 ^ 31 + 1\<close> and \<open>threads = 4\<close>
  the slots of thread block 0 and of thread block \<open>2 ^ 31\<close> (block 0, entry 0, thread 0)
  have the same index.
\<close>

theorem flatIndex_wraps_counterexample:
  "0 < (1 :: size_t) \<and> 0 < (0x80000000 :: uint) \<and> 0 < (0x80000001 :: uint) \<and> 0 < (4 :: uint)
   \<and> inIndexSpace 1 0x80000000 0x80000001 4 0 0 0 0
   \<and> inIndexSpace 1 0x80000000 0x80000001 4 0 0 0 0x80000000
   \<and> flatIndex 1 0x80000000 4 0 0 0 0 = flatIndex 1 0x80000000 4 0 0 0 0x80000000
   \<and> (0 :: size_t) \<noteq> 0x80000000"
  by (simp add: inIndexSpace_def flatIndex_def counterIndex_def)

subsection \<open>createPass\<close>

text \<open>
  Claim C5. \<open>createPass\<close> returns a pass with \<open>entries = 2\<close> for \<open>memoryIntensity\<close>, a
  pass with \<open>entries = 1\<close> for \<open>executionCount\<close> and for \<open>instructionCount\<close>, and throws
  the exception "No basic block instrumentation pass specified!" for every other value
  of \<open>type\<close>. In each case the only field of the instrumentor it writes is \<open>entries\<close>:
  it calls nothing of the device.
\<close>

theorem createPass_entries:
  "(type s = memoryIntensity \<longrightarrow>
      createPass s = (s\<lparr>entries := 2\<rparr>, Inr \<lparr>passKind = MemoryIntensityPass, passEntries = 2\<rparr>))
   \<and> (type s = executionCount \<longrightarrow>
      createPass s = (s\<lparr>entries := 1\<rparr>, Inr \<lparr>passKind = BasicBlockExecutionCountPass, passEntries = 1\<rparr>))
   \<and> (type s = instructionCount \<longrightarrow>
      createPass s = (s\<lparr>entries := 1\<rparr>, Inr \<lparr>passKind = DynamicInstructionCountPass, passEntries = 1\<rparr>))
   \<and> (type s \<noteq> memoryIntensity \<and> type s \<noteq> executionCount \<and> type s \<noteq> instructionCount \<longrightarrow>
      createPass s = (s\<lparr>entries := 1\<rparr>, Inl (Exception ''No basic block instrumentation pass specified!'')))"
  by (simp add: createPass_def Let_def memoryIntensity_def executionCount_def instructionCount_def)

theorem createPass_entries_witness:
  "createPass \<lparr>kernelName = ''k'', labels = [], threads = 4, threadBlocks = 2, basicBlocks = 3,
      entries = 7, type = memoryIntensity,
      kernelProfile = \<lparr>basicBlockExecutionCountMap = Map.empty, memoryOperationsMap = Map.empty\<rparr>\<rparr>
   = (\<lparr>kernelName = ''k'', labels = [], threads = 4, threadBlocks = 2, basicBlocks = 3,
      entries = 2, type = memoryIntensity,
      kernelProfile = \<lparr>basicBlockExecutionCountMap = Map.empty, memoryOperationsMap = Map.empty\<rparr>\<rparr>,
      Inr \<lparr>passKind = MemoryIntensityPass, passEntries = 2\<rparr>)
   \<and> snd (createPass \<lparr>kernelName = ''k'', labels = [], threads = 4, threadBlocks = 2, basicBlocks = 3,
      entries = 7, type = 5,
      kernelProfile = \<lparr>basicBlockExecutionCountMap = Map.empty, memoryOperationsMap = Map.empty\<rparr>\<rparr>)
   = Inl (Exception ''No basic block instrumentation pass specified!'')"
  using createPass_entries [of "\<lparr>kernelName = ''k'', labels = [], threads = 4, threadBlocks = 2,
      basicBlocks = 3, entries = 7, type = memoryIntensity,
      kernelProfile = \<lparr>basicBlockExecutionCountMap = Map.empty, memoryOperationsMap = Map.empty\<rparr>\<rparr>"]
    createPass_entries [of "\<lparr>kernelName = ''k'', labels = [], threads = 4, threadBlocks = 2,
      basicBlocks = 3, entries = 7, type = 5,
      kernelProfile = \<lparr>basicBlockExecutionCountMap = Map.empty, memoryOperationsMap = Map.empty\<rparr>\<rparr>"]
  by (simp add: memoryIntensity_def executionCount_def instructionCount_def)

subsection \<open>extractResults\<close>

lemma bumped_refl: "bumped m m (\<lambda>b. 0) {}"
  by (simp add: bumped_def)

lemma bumped_addAt: "bumped m (addAt m i v) (\<lambda>b. if b = i then v else 0) {i}"
  by (simp add: bumped_def addAt_def mapAt_def)

lemma bumped_touch: "bumped m (touch m j) (\<lambda>b. 0) {j}"
  by (simp add: bumped_def touch_def mapAt_def)

lemma bumped_trans:
  assumes "bumped m m' f S" "bumped m' m'' g S'"
    and "\<And>b. h b = f b + g b" "S \<union> S' \<subseteq> U"
  shows "bumped m m'' h U"
proof -
  have 1: "mapAt m'' b = mapAt m b + h b" for b
    using assms(1,2,3) by (simp add: bumped_def add.assoc)
  have 2: "m'' b = m b" if "b \<notin> U" for b
  proof -
    have "b \<notin> S" "b \<notin> S'" using that assms(4) by auto
    then show ?thesis using assms(1,2) by (simp add: bumped_def)
  qed
  show ?thesis using 1 2 by (simp add: bumped_def)
qed

lemma bumpedIf_trans:
  assumes "bumpedIf c m m' f S" "bumpedIf c m' m'' g S'"
    and "\<And>b. h b = f b + g b" "S \<union> S' \<subseteq> U"
  shows "bumpedIf c m m'' h U"
proof (cases c)
  case True
  then have "bumped m m' f S" "bumped m' m'' g S'" using assms(1,2) by (simp_all add: bumpedIf_def)
  then have "bumped m m'' h U" using assms(3,4) by (rule bumped_trans)
  then show ?thesis using True by (simp add: bumpedIf_def)
next
  case False
  then show ?thesis using assms(1,2) by (simp add: bumpedIf_def)
qed

lemma bumpedIf_addAt:
  "bumpedIf c m (if c then addAt m i v else m) (\<lambda>b. if b = i then v else 0) {i}"
  by (simp add: bumpedIf_def bumped_addAt)

lemma bumpedIf_touch:
  "bumpedIf c m (if c then touch m j else m) (\<lambda>b. 0) {j}"
  by (simp add: bumpedIf_def bumped_touch)

lemma bumpedIf_same: "(\<And>b. f b = 0) \<Longrightarrow> bumpedIf c m m f S"
  by (simp add: bumpedIf_def bumped_def)

lemma unat_of_nat_size_t: "n < 2 ^ 64 \<Longrightarrow> unat (of_nat n :: size_t) = n"
  by (simp add: unat_of_nat)

lemma unat_scaled:
  assumes "t * unat en < 2 ^ 64"
  shows "unat (of_nat t * en :: size_t) = t * unat en"
proof -
  define P where "P = t * unat en"
  have "of_nat t * en = (of_nat P :: size_t)" by (simp add: P_def)
  then have "unat (of_nat t * en) = unat (of_nat P :: size_t)" by simp
  also have "\<dots> = P" using assms by (simp add: unat_of_nat P_def [symmetric])
  finally show ?thesis by (simp add: P_def)
qed

lemma ucast_uint_of_nat: "(ucast (x :: uint) :: size_t) = of_nat (unat x)"
  by simp

lemma row_fits:
  fixes E B K T :: nat
  assumes "E * B * K * T < N" "0 < B" "0 < K" "t \<le> T"
  shows "t * E < N"
proof -
  have a: "t * E \<le> T * E" using assms(4) by (rule mult_le_mono1)
  have "1 \<le> B * K" using assms(2,3) by (simp add: Suc_le_eq)
  then have "(T * E) * 1 \<le> (T * E) * (B * K)" by (rule mult_le_mono2)
  then have b: "T * E \<le> E * B * K * T" by (simp only: mult_ac mult_1_right)
  from a b assms(1) show ?thesis by linarith
qed

lemma slotSum_rd: "slotSum s info b e k = (\<Sum>t<unat (threads s). rd s info b e k t)"
  by (simp add: slotSum_def rd_def)

lemma thread_word:
  assumes "t < unat (th :: uint)"
  shows "(of_nat t :: size_t) < ucast th"
proof -
  have "unat th < 2 ^ 32" using unsigned_less [of th, where 'a = nat] by simp
  then have "t < 2 ^ 64" using assms by simp
  then have "unat (of_nat t :: size_t) = t" by (rule unat_of_nat_size_t)
  then show ?thesis using assms by (simp add: word_less_nat_alt)
qed

lemma slot_in_range:
  assumes ws: "wellSized s info"
    and i: "i < ucast (basicBlocks s)" and k: "k < ucast (threadBlocks s)"
    and t: "t < unat (threads s)" and e: "e < entries s"
  shows "unat (flatIndex (entries s) (basicBlocks s) (threads s) i e (of_nat t) k) < length info"
proof -
  have nov: "unat (entries s) * unat (basicBlocks s) * unat (threadBlocks s) * unat (threads s) < 2 ^ 64"
    using ws by (simp add: wellSized_def)
  have v: "inIndexSpace (entries s) (basicBlocks s) (threadBlocks s) (threads s) i e (of_nat t) k"
    using i k e thread_word [OF t] by (simp add: inIndexSpace_def)
  have lt: "unat i < unat (basicBlocks s)" "unat e < unat (entries s)"
      "unat (of_nat t :: size_t) < unat (threads s)" "unat k < unat (threadBlocks s)"
    using v by (simp_all add: inIndexSpace_def word_less_nat_alt)
  have "unat (flatIndex (entries s) (basicBlocks s) (threads s) i e (of_nat t) k)
      < unat (entries s) * unat (basicBlocks s) * unat (threadBlocks s) * unat (threads s)"
    using natIndex_less [OF lt] unat_flatIndex [OF nov v] by simp
  then show ?thesis using ws by (simp add: wellSized_def)
qed

lemma readInfo_slot:
  assumes ws: "wellSized s info"
    and i: "i < ucast (basicBlocks s)" and k: "k < ucast (threadBlocks s)"
    and t: "t < unat (threads s)" and e: "e < entries s"
  shows "readInfo info (counterIndex (entries s) (basicBlocks s) (threads s) i k (of_nat t * entries s + e))
       = Inr (rd s info i e k t)"
  using slot_in_range [OF assms]
  by (simp add: readInfo_def rd_def flatIndex_def)

lemma loop_guard:
  fixes i k :: size_t
  assumes ws: "wellSized s info"
    and i: "i < ucast (basicBlocks s)" and k: "k < ucast (threadBlocks s)"
    and t: "t \<le> unat (threads s)"
  shows "(of_nat t * entries s < ucast (threads s) * entries s) = (t < unat (threads s))"
proof -
  have nov: "unat (entries s) * unat (basicBlocks s) * unat (threadBlocks s) * unat (threads s) < 2 ^ 64"
    using ws by (simp add: wellSized_def)
  have B: "0 < unat (basicBlocks s)" using i by (simp add: word_less_nat_alt)
  have K: "0 < unat (threadBlocks s)" using k by (simp add: word_less_nat_alt)
  have E: "0 < unat (entries s)" using ws by (simp add: wellSized_def word_less_nat_alt)
  have 1: "unat (of_nat t * entries s) = t * unat (entries s)"
    using row_fits [OF nov B K t] by (rule unat_scaled)
  have "unat (of_nat (unat (threads s)) * entries s) = unat (threads s) * unat (entries s)"
    using row_fits [OF nov B K order_refl] by (rule unat_scaled)
  then have 2: "unat (ucast (threads s) * entries s) = unat (threads s) * unat (entries s)"
    by simp
  show ?thesis using E by (simp add: word_less_nat_alt 1 2)
qed

lemma counterLoop_step:
  fixes i k :: size_t
  assumes ws: "wellSized s info"
    and i: "i < ucast (basicBlocks s)" and k: "k < ucast (threadBlocks s)"
    and t: "t < unat (threads s)"
  shows "counterLoop s info k i (of_nat t * entries s) p
       = counterLoop s info k i (of_nat (Suc t) * entries s)
           (p\<lparr>basicBlockExecutionCountMap := addAt (basicBlockExecutionCountMap p) i (rd s info i 0 k t),
              memoryOperationsMap := (if type s = memoryIntensity
                 then addAt (memoryOperationsMap p) i (rd s info i 1 k t)
                 else memoryOperationsMap p)\<rparr>)"
proof -
  have g: "of_nat t * entries s < ucast (threads s) * entries s"
    using loop_guard [OF ws i k, of t] t by simp
  have e0: "0 < entries s" using ws by (simp add: wellSized_def)
  have r0: "readInfo info (counterIndex (entries s) (basicBlocks s) (threads s) i k (of_nat t * entries s))
      = Inr (rd s info i 0 k t)"
    using readInfo_slot [OF ws i k t e0] by simp
  have nxt: "of_nat t * entries s + entries s = of_nat (Suc t) * entries s"
    by (simp add: algebra_simps)
  show ?thesis
  proof (cases "type s = memoryIntensity")
    case True
    then have "2 \<le> entries s" using ws by (simp add: wellSized_def)
    then have e1: "1 < entries s" by unat_arith
    have r1: "readInfo info (counterIndex (entries s) (basicBlocks s) (threads s) i k (of_nat t * entries s + 1))
      = Inr (rd s info i 1 k t)"
      using readInfo_slot [OF ws i k t e1] by simp
    show ?thesis
      by (subst counterLoop.simps) (simp add: g r0 r1 True nxt Let_def del: of_nat_Suc)
  next
    case False
    have "p\<lparr>basicBlockExecutionCountMap := addAt (basicBlockExecutionCountMap p) i (rd s info i 0 k t)\<rparr>
        = p\<lparr>basicBlockExecutionCountMap := addAt (basicBlockExecutionCountMap p) i (rd s info i 0 k t),
            memoryOperationsMap := memoryOperationsMap p\<rparr>" by simp
    then show ?thesis
      by (subst counterLoop.simps) (simp add: g r0 False nxt Let_def del: of_nat_Suc)
  qed
qed

lemma counterLoop_effect:
  fixes i k :: size_t
  assumes ws: "wellSized s info"
    and i: "i < ucast (basicBlocks s)" and k: "k < ucast (threadBlocks s)"
  shows "t \<le> unat (threads s) \<Longrightarrow>
     \<exists>p'. counterLoop s info k i (of_nat t * entries s) p = Some (Inr p')
       \<and> bumpedIf True (basicBlockExecutionCountMap p) (basicBlockExecutionCountMap p')
            (\<lambda>b. if b = i then (\<Sum>u = t..<unat (threads s). rd s info i 0 k u) else 0) {i}
       \<and> bumpedIf (type s = memoryIntensity) (memoryOperationsMap p) (memoryOperationsMap p')
            (\<lambda>b. if b = i then (\<Sum>u = t..<unat (threads s). rd s info i 1 k u) else 0) {i}"
proof (induction "unat (threads s) - t" arbitrary: t p)
  case 0
  then have t: "t = unat (threads s)" by simp
  have g: "\<not> of_nat t * entries s < ucast (threads s) * entries s"
    using loop_guard [OF ws i k, of t] t by simp
  have "counterLoop s info k i (of_nat t * entries s) p = Some (Inr p)"
    by (subst counterLoop.simps) (simp add: g)
  moreover have "bumpedIf c m m (\<lambda>b. if b = i then (\<Sum>u = t..<unat (threads s). rd s info i e k u) else 0) {i}"
    for c m e
    by (rule bumpedIf_same) (simp add: t)
  ultimately show ?case by blast
next
  case (Suc n)
  then have t: "t < unat (threads s)" and n: "n = unat (threads s) - Suc t" 
    and t': "Suc t \<le> unat (threads s)" by simp_all
  let ?T = "unat (threads s)"
  define p2 where "p2 = p\<lparr>basicBlockExecutionCountMap := addAt (basicBlockExecutionCountMap p) i (rd s info i 0 k t),
              memoryOperationsMap := (if type s = memoryIntensity
                 then addAt (memoryOperationsMap p) i (rd s info i 1 k t)
                 else memoryOperationsMap p)\<rparr>"
  have step: "counterLoop s info k i (of_nat t * entries s) p
        = counterLoop s info k i (of_nat (Suc t) * entries s) p2"
    unfolding p2_def by (rule counterLoop_step [OF ws i k t])
  have split0: "(if b = i then (\<Sum>u = t..<?T. rd s info i e k u) else 0)
      = (if b = i then rd s info i e k t else 0)
        + (if b = i then (\<Sum>u = Suc t..<?T. rd s info i e k u) else 0)" for e b
    using t by (simp add: sum.atLeast_Suc_lessThan)
  from Suc.hyps(1) [OF n t', of p2] obtain p' where
    res: "counterLoop s info k i (of_nat (Suc t) * entries s) p2 = Some (Inr p')"
    and be: "bumpedIf True (basicBlockExecutionCountMap p2) (basicBlockExecutionCountMap p')
            (\<lambda>b. if b = i then (\<Sum>u = Suc t..<?T. rd s info i 0 k u) else 0) {i}"
    and bm: "bumpedIf (type s = memoryIntensity) (memoryOperationsMap p2) (memoryOperationsMap p')
            (\<lambda>b. if b = i then (\<Sum>u = Suc t..<?T. rd s info i 1 k u) else 0) {i}"
    by blast
  have preE: "bumpedIf True (basicBlockExecutionCountMap p) (basicBlockExecutionCountMap p2)
            (\<lambda>b. if b = i then rd s info i 0 k t else 0) {i}"
    using bumpedIf_addAt [of True] by (simp add: p2_def)
  have preM: "bumpedIf (type s = memoryIntensity) (memoryOperationsMap p) (memoryOperationsMap p2)
            (\<lambda>b. if b = i then rd s info i 1 k t else 0) {i}"
    using bumpedIf_addAt [of "type s = memoryIntensity"] by (simp add: p2_def)
  have E: "bumpedIf True (basicBlockExecutionCountMap p) (basicBlockExecutionCountMap p')
            (\<lambda>b. if b = i then (\<Sum>u = t..<?T. rd s info i 0 k u) else 0) {i}"
    by (rule bumpedIf_trans [OF preE be]) (rule split0, simp)
  have M: "bumpedIf (type s = memoryIntensity) (memoryOperationsMap p) (memoryOperationsMap p')
            (\<lambda>b. if b = i then (\<Sum>u = t..<?T. rd s info i 1 k u) else 0) {i}"
    by (rule bumpedIf_trans [OF preM bm]) (rule split0, simp)
  from step res E M show ?case by simp
qed

lemma counterLoop_whole:
  fixes i k :: size_t
  assumes ws: "wellSized s info"
    and i: "i < ucast (basicBlocks s)" and k: "k < ucast (threadBlocks s)"
  shows "\<exists>p'. counterLoop s info k i 0 p = Some (Inr p')
       \<and> bumpedIf True (basicBlockExecutionCountMap p) (basicBlockExecutionCountMap p')
            (\<lambda>b. if b = i then slotSum s info i 0 k else 0) {i}
       \<and> bumpedIf (type s = memoryIntensity) (memoryOperationsMap p) (memoryOperationsMap p')
            (\<lambda>b. if b = i then slotSum s info i 1 k else 0) {i}"
proof -
  have eq: "slotSum s info i e k = (\<Sum>u = 0..<unat (threads s). rd s info i e k u)" for e
    by (simp add: slotSum_rd lessThan_atLeast0)
  have z: "(of_nat 0 :: size_t) * entries s = 0" by simp
  from counterLoop_effect [OF ws i k le0, of p] show ?thesis
    unfolding eq z .
qed

lemma block_word:
  assumes "n < unat (bb :: uint)"
  shows "(of_nat n :: size_t) < ucast bb" and "unat (of_nat n :: size_t) = n"
    and "(of_nat n :: size_t) + 1 = of_nat (Suc n)" and "n < 2 ^ 64"
proof -
  have "unat bb < 2 ^ 32" using unsigned_less [of bb, where 'a = nat] by simp
  then show n64: "n < 2 ^ 64" using assms by simp
  then show u: "unat (of_nat n :: size_t) = n" by (rule unat_of_nat_size_t)
  then show "(of_nat n :: size_t) < ucast bb" using assms by (simp add: word_less_nat_alt)
  show "(of_nat n :: size_t) + 1 = of_nat (Suc n)" by simp
qed

lemma word_is_of_nat: "(b = (of_nat n :: size_t)) = (unat b = n)" if "n < 2 ^ 64"
proof
  assume "b = of_nat n"
  then show "unat b = n" using that by (simp add: unat_of_nat_size_t)
next
  assume "unat b = n"
  then have "of_nat (unat b) = (of_nat n :: size_t)" by simp
  then show "b = of_nat n" by simp
qed

lemma blockLoop_effect:
  fixes k :: size_t
  assumes ws: "wellSized s info" and k: "k < ucast (threadBlocks s)"
  shows "n \<le> unat (basicBlocks s) \<Longrightarrow>
     \<exists>p'. blockLoop s info k (of_nat n) p = Some (Inr p')
       \<and> bumpedIf True (basicBlockExecutionCountMap p) (basicBlockExecutionCountMap p')
            (\<lambda>b. if n \<le> unat b \<and> unat b < unat (basicBlocks s) then slotSum s info b 0 k else 0)
            {b. n \<le> unat b \<and> unat b < unat (basicBlocks s)}
       \<and> bumpedIf (type s = memoryIntensity) (memoryOperationsMap p) (memoryOperationsMap p')
            (\<lambda>b. if n \<le> unat b \<and> unat b < unat (basicBlocks s) then slotSum s info b 1 k else 0)
            {b. n \<le> unat b \<and> unat b < unat (basicBlocks s)}"
proof (induction "unat (basicBlocks s) - n" arbitrary: n p)
  case 0
  then have n: "n = unat (basicBlocks s)" by simp
  have "blockLoop s info k (of_nat n) p = Some (Inr p)"
    by (subst blockLoop.simps) (simp add: n)
  moreover have "bumpedIf c m m
     (\<lambda>b. if n \<le> unat b \<and> unat b < unat (basicBlocks s) then slotSum s info b e k else 0)
     {b. n \<le> unat b \<and> unat b < unat (basicBlocks s)}" for c m e
    by (rule bumpedIf_same) (auto simp add: n)
  ultimately show ?case by blast
next
  case (Suc m)
  let ?B = "unat (basicBlocks s)"
  from Suc have n: "n < ?B" and m: "m = ?B - Suc n" and n': "Suc n \<le> ?B" by simp_all
  note w = block_word [OF n]
  from counterLoop_whole [OF ws w(1) k, of p] obtain p1 where
    c: "counterLoop s info k (of_nat n) 0 p = Some (Inr p1)"
    and ce: "bumpedIf True (basicBlockExecutionCountMap p) (basicBlockExecutionCountMap p1)
            (\<lambda>b. if b = of_nat n then slotSum s info (of_nat n) 0 k else 0) {of_nat n}"
    and cm: "bumpedIf (type s = memoryIntensity) (memoryOperationsMap p) (memoryOperationsMap p1)
            (\<lambda>b. if b = of_nat n then slotSum s info (of_nat n) 1 k else 0) {of_nat n}"
    by blast
  have step: "blockLoop s info k (of_nat n) p = blockLoop s info k (of_nat (Suc n)) p1"
    by (subst blockLoop.simps) (simp add: w c del: of_nat_Suc)
  from Suc.hyps(1) [OF m n', of p1] obtain p' where
    res: "blockLoop s info k (of_nat (Suc n)) p1 = Some (Inr p')"
    and be: "bumpedIf True (basicBlockExecutionCountMap p1) (basicBlockExecutionCountMap p')
            (\<lambda>b. if Suc n \<le> unat b \<and> unat b < ?B then slotSum s info b 0 k else 0)
            {b. Suc n \<le> unat b \<and> unat b < ?B}"
    and bm: "bumpedIf (type s = memoryIntensity) (memoryOperationsMap p1) (memoryOperationsMap p')
            (\<lambda>b. if Suc n \<le> unat b \<and> unat b < ?B then slotSum s info b 1 k else 0)
            {b. Suc n \<le> unat b \<and> unat b < ?B}"
    by blast
  have fsplit: "(if n \<le> unat b \<and> unat b < ?B then slotSum s info b e k else 0)
      = (if b = of_nat n then slotSum s info (of_nat n) e k else 0)
        + (if Suc n \<le> unat b \<and> unat b < ?B then slotSum s info b e k else 0)" for b e
    using n by (auto simp add: word_is_of_nat [OF w(4)])
  have ssub: "{of_nat n} \<union> {b. Suc n \<le> unat b \<and> unat b < ?B} \<subseteq> {b :: size_t. n \<le> unat b \<and> unat b < ?B}"
    using n by (auto simp add: w(2))
  have E: "bumpedIf True (basicBlockExecutionCountMap p) (basicBlockExecutionCountMap p')
            (\<lambda>b. if n \<le> unat b \<and> unat b < ?B then slotSum s info b 0 k else 0)
            {b. n \<le> unat b \<and> unat b < ?B}"
    by (rule bumpedIf_trans [OF ce be]) (rule fsplit, rule ssub)
  have M: "bumpedIf (type s = memoryIntensity) (memoryOperationsMap p) (memoryOperationsMap p')
            (\<lambda>b. if n \<le> unat b \<and> unat b < ?B then slotSum s info b 1 k else 0)
            {b. n \<le> unat b \<and> unat b < ?B}"
    by (rule bumpedIf_trans [OF cm bm]) (rule fsplit, rule ssub)
  from step res E M show ?case by simp
qed

lemma blockLoop_whole:
  fixes k :: size_t
  assumes ws: "wellSized s info" and k: "k < ucast (threadBlocks s)"
  shows "\<exists>p'. blockLoop s info k 0 p = Some (Inr p')
       \<and> bumpedIf True (basicBlockExecutionCountMap p) (basicBlockExecutionCountMap p')
            (\<lambda>b. if unat b < unat (basicBlocks s) then slotSum s info b 0 k else 0)
            {b. unat b < unat (basicBlocks s)}
       \<and> bumpedIf (type s = memoryIntensity) (memoryOperationsMap p) (memoryOperationsMap p')
            (\<lambda>b. if unat b < unat (basicBlocks s) then slotSum s info b 1 k else 0)
            {b. unat b < unat (basicBlocks s)}"
proof -
  have z: "(of_nat 0 :: size_t) = 0" "(0 \<le> n \<and> P) = P" for n :: nat and P by simp_all
  from blockLoop_effect [OF ws k le0, of p] show ?thesis
    unfolding z .
qed

lemma threadBlockLoop_effect:
  assumes ws: "wellSized s info"
  shows "n \<le> unat (threadBlocks s) \<Longrightarrow>
     \<exists>p'. threadBlockLoop s info (of_nat n) p = Some (Inr p')
       \<and> bumpedIf True (basicBlockExecutionCountMap p) (basicBlockExecutionCountMap p')
            (\<lambda>b. if unat b < unat (basicBlocks s)
                 then (\<Sum>k = n..<unat (threadBlocks s). slotSum s info b 0 (of_nat k)) else 0)
            {b. unat b < unat (basicBlocks s)}
       \<and> bumpedIf (type s = memoryIntensity) (memoryOperationsMap p) (memoryOperationsMap p')
            (\<lambda>b. if unat b < unat (basicBlocks s)
                 then (\<Sum>k = n..<unat (threadBlocks s). slotSum s info b 1 (of_nat k)) else 0)
            {b. unat b < unat (basicBlocks s)}"
proof (induction "unat (threadBlocks s) - n" arbitrary: n p)
  case 0
  then have n: "n = unat (threadBlocks s)" by simp
  have "threadBlockLoop s info (of_nat n) p = Some (Inr p)"
    by (subst threadBlockLoop.simps) (simp add: n)
  moreover have "bumpedIf c m m
     (\<lambda>b. if unat b < unat (basicBlocks s)
                 then (\<Sum>k = n..<unat (threadBlocks s). slotSum s info b e (of_nat k)) else 0)
     {b. unat b < unat (basicBlocks s)}" for c m e
    by (rule bumpedIf_same) (simp add: n)
  ultimately show ?case by blast
next
  case (Suc m)
  let ?K = "unat (threadBlocks s)"
  let ?B = "unat (basicBlocks s)"
  from Suc have n: "n < ?K" and m: "m = ?K - Suc n" and n': "Suc n \<le> ?K" by simp_all
  note w = block_word [OF n]
  from blockLoop_whole [OF ws w(1), of p] obtain p1 where
    c: "blockLoop s info (of_nat n) 0 p = Some (Inr p1)"
    and ce: "bumpedIf True (basicBlockExecutionCountMap p) (basicBlockExecutionCountMap p1)
            (\<lambda>b. if unat b < ?B then slotSum s info b 0 (of_nat n) else 0) {b. unat b < ?B}"
    and cm: "bumpedIf (type s = memoryIntensity) (memoryOperationsMap p) (memoryOperationsMap p1)
            (\<lambda>b. if unat b < ?B then slotSum s info b 1 (of_nat n) else 0) {b. unat b < ?B}"
    by blast
  have step: "threadBlockLoop s info (of_nat n) p = threadBlockLoop s info (of_nat (Suc n)) p1"
    by (subst threadBlockLoop.simps) (simp add: w c del: of_nat_Suc)
  from Suc.hyps(1) [OF m n', of p1] obtain p' where
    res: "threadBlockLoop s info (of_nat (Suc n)) p1 = Some (Inr p')"
    and be: "bumpedIf True (basicBlockExecutionCountMap p1) (basicBlockExecutionCountMap p')
            (\<lambda>b. if unat b < ?B then (\<Sum>k = Suc n..<?K. slotSum s info b 0 (of_nat k)) else 0)
            {b. unat b < ?B}"
    and bm: "bumpedIf (type s = memoryIntensity) (memoryOperationsMap p1) (memoryOperationsMap p')
            (\<lambda>b. if unat b < ?B then (\<Sum>k = Suc n..<?K. slotSum s info b 1 (of_nat k)) else 0)
            {b. unat b < ?B}"
    by blast
  have fsplit: "(if unat b < ?B then (\<Sum>k = n..<?K. slotSum s info b e (of_nat k)) else 0)
      = (if unat b < ?B then slotSum s info b e (of_nat n) else 0)
        + (if unat b < ?B then (\<Sum>k = Suc n..<?K. slotSum s info b e (of_nat k)) else 0)" for b e
    using n by (simp add: sum.atLeast_Suc_lessThan)
  have E: "bumpedIf True (basicBlockExecutionCountMap p) (basicBlockExecutionCountMap p')
            (\<lambda>b. if unat b < ?B then (\<Sum>k = n..<?K. slotSum s info b 0 (of_nat k)) else 0)
            {b. unat b < ?B}"
    by (rule bumpedIf_trans [OF ce be]) (rule fsplit, simp)
  have M: "bumpedIf (type s = memoryIntensity) (memoryOperationsMap p) (memoryOperationsMap p')
            (\<lambda>b. if unat b < ?B then (\<Sum>k = n..<?K. slotSum s info b 1 (of_nat k)) else 0)
            {b. unat b < ?B}"
    by (rule bumpedIf_trans [OF cm bm]) (rule fsplit, simp)
  from step res E M show ?case by simp
qed

lemma threadBlockLoop_whole:
  assumes ws: "wellSized s info"
  shows "\<exists>p'. threadBlockLoop s info 0 p = Some (Inr p')
       \<and> bumpedIf True (basicBlockExecutionCountMap p) (basicBlockExecutionCountMap p')
            (\<lambda>b. if unat b < unat (basicBlocks s) then blockSum s info b 0 else 0)
            {b. unat b < unat (basicBlocks s)}
       \<and> bumpedIf (type s = memoryIntensity) (memoryOperationsMap p) (memoryOperationsMap p')
            (\<lambda>b. if unat b < unat (basicBlocks s) then blockSum s info b 1 else 0)
            {b. unat b < unat (basicBlocks s)}"
proof -
  have eq: "blockSum s info b e = (\<Sum>k = 0..<unat (threadBlocks s). slotSum s info b e (of_nat k))" for b e
    by (simp add: blockSum_def lessThan_atLeast0)
  have z: "(of_nat 0 :: size_t) = 0" by simp
  from threadBlockLoop_effect [OF ws le0, of p] show ?thesis
    unfolding eq z .
qed

lemma mapAt_touch: "mapAt (touch m j) b = mapAt m b"
  by (simp add: touch_def mapAt_def)

lemma touch_other: "b \<noteq> j \<Longrightarrow> touch m j b = m b"
  by (simp add: touch_def)

lemma touch_same: "touch m j j = Some (mapAt m j)"
  by (simp add: touch_def)

lemma touch_range:
  fixes m :: "size_t \<rightharpoonup> size_t"
  assumes "n < B" "n < 2 ^ 64"
  shows "(\<lambda>b. if Suc n \<le> unat b \<and> unat b < B then Some (mapAt (touch m (of_nat n)) b)
              else touch m (of_nat n) b)
       = (\<lambda>b. if n \<le> unat b \<and> unat b < B then Some (mapAt m b) else m b)"
proof
  fix b :: size_t
  show "(if Suc n \<le> unat b \<and> unat b < B then Some (mapAt (touch m (of_nat n)) b)
              else touch m (of_nat n) b)
       = (if n \<le> unat b \<and> unat b < B then Some (mapAt m b) else m b)"
  proof (cases "b = of_nat n")
    case True
    then have "unat b = n" using assms(2) by (simp add: unat_of_nat_size_t)
    then show ?thesis using True assms(1) by (simp add: touch_same)
  next
    case False
    then have "unat b \<noteq> n" using word_is_of_nat [OF assms(2), of b] by simp
    then show ?thesis using False by (auto simp add: mapAt_touch touch_other)
  qed
qed

lemma reportLoop_effect:
  assumes lab: "unat (basicBlocks s) \<le> length (labels s)"
  shows "n \<le> unat (basicBlocks s) \<Longrightarrow>
     \<exists>p' out'. reportLoop s (of_nat n) p out = Inr (p', out')
       \<and> basicBlockExecutionCountMap p'
           = (\<lambda>b. if n \<le> unat b \<and> unat b < unat (basicBlocks s)
                  then Some (mapAt (basicBlockExecutionCountMap p) b)
                  else basicBlockExecutionCountMap p b)
       \<and> memoryOperationsMap p'
           = (if type s = memoryIntensity
              then (\<lambda>b. if n \<le> unat b \<and> unat b < unat (basicBlocks s)
                  then Some (mapAt (memoryOperationsMap p) b)
                  else memoryOperationsMap p b)
              else memoryOperationsMap p)"
proof (induction "unat (basicBlocks s) - n" arbitrary: n p out)
  case 0
  then have n: "n = unat (basicBlocks s)" by simp
  have "reportLoop s (of_nat n) p out = Inr (p, out)"
    by (subst reportLoop.simps) (simp add: n)
  moreover have "(\<lambda>b. if n \<le> unat b \<and> unat b < unat (basicBlocks s) then Some (mapAt m b) else m b) = m"
    for m :: "size_t \<rightharpoonup> size_t"
    by (rule ext) (auto simp add: n)
  ultimately show ?case by simp
next
  case (Suc m)
  let ?B = "unat (basicBlocks s)"
  from Suc have n: "n < ?B" and m: "m = ?B - Suc n" and n': "Suc n \<le> ?B" by simp_all
  note w = block_word [OF n]
  have l: "n < length (labels s)" using n lab by simp
  define p1 where "p1 = p\<lparr>basicBlockExecutionCountMap := touch (basicBlockExecutionCountMap p) (of_nat n),
       memoryOperationsMap := (if type s = memoryIntensity
          then touch (memoryOperationsMap p) (of_nat n) else memoryOperationsMap p)\<rparr>"
  have "\<exists>out1. reportLoop s (of_nat n) p out = reportLoop s (of_nat (Suc n)) p1 out1"
  proof (cases "type s = memoryIntensity")
    case True
    show ?thesis
      by (subst reportLoop.simps) (simp add: w l True p1_def Let_def del: of_nat_Suc, rule exI, rule refl)
  next
    case False
    have "p\<lparr>basicBlockExecutionCountMap := touch (basicBlockExecutionCountMap p) (of_nat n)\<rparr>
        = p\<lparr>basicBlockExecutionCountMap := touch (basicBlockExecutionCountMap p) (of_nat n),
            memoryOperationsMap := memoryOperationsMap p\<rparr>" by simp
    then show ?thesis
      by (subst reportLoop.simps) (simp add: w l False p1_def Let_def del: of_nat_Suc, rule exI, rule refl)
  qed
  then obtain out1 where step: "reportLoop s (of_nat n) p out = reportLoop s (of_nat (Suc n)) p1 out1"
    by blast
  from Suc.hyps(1) [OF m n', of p1 out1] obtain p' out' where
    res: "reportLoop s (of_nat (Suc n)) p1 out1 = Inr (p', out')"
    and be: "basicBlockExecutionCountMap p'
           = (\<lambda>b. if Suc n \<le> unat b \<and> unat b < ?B
                  then Some (mapAt (basicBlockExecutionCountMap p1) b)
                  else basicBlockExecutionCountMap p1 b)"
    and bm: "memoryOperationsMap p'
           = (if type s = memoryIntensity
              then (\<lambda>b. if Suc n \<le> unat b \<and> unat b < ?B
                  then Some (mapAt (memoryOperationsMap p1) b)
                  else memoryOperationsMap p1 b)
              else memoryOperationsMap p1)"
    by blast
  have e1: "basicBlockExecutionCountMap p1 = touch (basicBlockExecutionCountMap p) (of_nat n)"
    by (simp add: p1_def)
  have E: "basicBlockExecutionCountMap p'
           = (\<lambda>b. if n \<le> unat b \<and> unat b < ?B
                  then Some (mapAt (basicBlockExecutionCountMap p) b)
                  else basicBlockExecutionCountMap p b)"
    unfolding be e1 by (rule touch_range [OF n w(4)])
  have M: "memoryOperationsMap p'
           = (if type s = memoryIntensity
              then (\<lambda>b. if n \<le> unat b \<and> unat b < ?B
                  then Some (mapAt (memoryOperationsMap p) b)
                  else memoryOperationsMap p b)
              else memoryOperationsMap p)"
  proof (cases "type s = memoryIntensity")
    case True
    then have m1: "memoryOperationsMap p1 = touch (memoryOperationsMap p) (of_nat n)"
      by (simp add: p1_def)
    from bm True have "memoryOperationsMap p'
        = (\<lambda>b. if Suc n \<le> unat b \<and> unat b < ?B
                  then Some (mapAt (memoryOperationsMap p1) b)
                  else memoryOperationsMap p1 b)" by simp
    then have "memoryOperationsMap p'
        = (\<lambda>b. if n \<le> unat b \<and> unat b < ?B
                  then Some (mapAt (memoryOperationsMap p) b)
                  else memoryOperationsMap p b)"
      unfolding m1 by (simp only: touch_range [OF n w(4)])
    then show ?thesis using True by simp
  next
    case False
    then show ?thesis using bm by (simp add: p1_def)
  qed
  from step res E M show ?case by simp
qed

lemma bumped_from_empty:
  assumes "bumpedIf True Map.empty m f {b. unat b < B}" "\<And>b. unat b < B \<Longrightarrow> f b = g b"
  shows "(\<lambda>b. if 0 \<le> unat b \<and> unat b < B then Some (mapAt m b) else m b)
       = (\<lambda>b. if unat b < B then Some (g b) else None)"
proof
  fix b :: size_t
  have 1: "mapAt m b = f b" using assms(1) by (simp add: bumpedIf_def bumped_def mapAt_def)
  have 2: "\<not> unat b < B \<Longrightarrow> m b = None" using assms(1) by (simp add: bumpedIf_def bumped_def)
  show "(if 0 \<le> unat b \<and> unat b < B then Some (mapAt m b) else m b)
       = (if unat b < B then Some (g b) else None)"
    using 1 2 assms(2) by simp
qed

lemma extractResults_exact:
  assumes ws: "wellSized s info"
    and lab: "unat (basicBlocks s) \<le> length (labels s)"
  shows "\<exists>out'. extractResults s info out =
      Some (Inr (s\<lparr>kernelProfile :=
          \<lparr>basicBlockExecutionCountMap =
             (\<lambda>b. if unat b < unat (basicBlocks s) then Some (blockSum s info b 0) else None),
           memoryOperationsMap =
             (if type s = memoryIntensity 
              then (\<lambda>b. if unat b < unat (basicBlocks s) then Some (blockSum s info b 1) else None)
              else Map.empty)\<rparr>\<rparr>,
        out', info))"
proof -
  let ?B = "unat (basicBlocks s)"
  define p0 :: KernelProfile where
    "p0 = \<lparr>basicBlockExecutionCountMap = Map.empty, memoryOperationsMap = Map.empty\<rparr>"
  define out1 where "out1 = out @ [Text ''{\<newline>\"kernel\": '', Text (kernelName s), Text '',\<newline>'',
                        Text ''\<newline>\"threadBlocks\": '', Number (ucast (threadBlocks s)), Text '',\<newline>'',
                        Text ''\<newline>\"threads\": '', Number (ucast (threads s)), Text '',\<newline>'',
                        Text ''\<newline>\"counters\": {\<newline>'']"
  from threadBlockLoop_whole [OF ws, of p0] obtain p1 where
    t: "threadBlockLoop s info 0 p0 = Some (Inr p1)"
    and te: "bumpedIf True (basicBlockExecutionCountMap p0) (basicBlockExecutionCountMap p1)
            (\<lambda>b. if unat b < ?B then blockSum s info b 0 else 0) {b. unat b < ?B}"
    and tm: "bumpedIf (type s = memoryIntensity) (memoryOperationsMap p0) (memoryOperationsMap p1)
            (\<lambda>b. if unat b < ?B then blockSum s info b 1 else 0) {b. unat b < ?B}"
    by blast
  have z: "(of_nat 0 :: size_t) = 0" by simp
  from reportLoop_effect [OF lab le0, of p1 out1, unfolded z] obtain p2 out2 where
    r: "reportLoop s 0 p1 out1 = Inr (p2, out2)"
    and re: "basicBlockExecutionCountMap p2
           = (\<lambda>b. if 0 \<le> unat b \<and> unat b < ?B
                  then Some (mapAt (basicBlockExecutionCountMap p1) b)
                  else basicBlockExecutionCountMap p1 b)"
    and rm: "memoryOperationsMap p2
           = (if type s = memoryIntensity
              then (\<lambda>b. if 0 \<le> unat b \<and> unat b < ?B
                  then Some (mapAt (memoryOperationsMap p1) b)
                  else memoryOperationsMap p1 b)
              else memoryOperationsMap p1)"
    by blast
  have te': "bumpedIf True Map.empty (basicBlockExecutionCountMap p1)
            (\<lambda>b. if unat b < ?B then blockSum s info b 0 else 0) {b. unat b < ?B}"
    using te by (simp add: p0_def)
  have E: "basicBlockExecutionCountMap p2
      = (\<lambda>b. if unat b < ?B then Some (blockSum s info b 0) else None)"
    unfolding re by (rule bumped_from_empty [OF te']) simp
  have M: "memoryOperationsMap p2
      = (if type s = memoryIntensity 
              then (\<lambda>b. if unat b < ?B then Some (blockSum s info b 1) else None)
              else Map.empty)"
  proof (cases "type s = memoryIntensity")
    case True
    then have tm': "bumpedIf True Map.empty (memoryOperationsMap p1)
            (\<lambda>b. if unat b < ?B then blockSum s info b 1 else 0) {b. unat b < ?B}"
      using tm by (simp add: p0_def bumpedIf_def)
    have "(\<lambda>b. if 0 \<le> unat b \<and> unat b < ?B
                  then Some (mapAt (memoryOperationsMap p1) b)
                  else memoryOperationsMap p1 b)
        = (\<lambda>b. if unat b < ?B then Some (blockSum s info b 1) else None)"
      by (rule bumped_from_empty [OF tm']) simp
    then show ?thesis using rm True by simp
  next
    case False
    then show ?thesis using rm tm by (simp add: p0_def bumpedIf_def)
  qed
  have p2: "p2 = \<lparr>basicBlockExecutionCountMap =
             (\<lambda>b. if unat b < unat (basicBlocks s) then Some (blockSum s info b 0) else None),
           memoryOperationsMap =
             (if type s = memoryIntensity 
              then (\<lambda>b. if unat b < unat (basicBlocks s) then Some (blockSum s info b 1) else None)
              else Map.empty)\<rparr>"
    by (rule KernelProfile.equality) (simp_all add: E M)
  have "extractResults s info out =
     (case threadBlockLoop s info 0 p0 of
           None \<Rightarrow> None
         | Some (Inl f) \<Rightarrow> Some (Inl f)
         | Some (Inr p1) \<Rightarrow>
             (case reportLoop s 0 p1 out1 of
                Inl f \<Rightarrow> Some (Inl f)
              | Inr (p2, out2) \<Rightarrow>
                  Some (Inr (s\<lparr>kernelProfile := p2\<rparr>, out2 @ [Text ''\<newline>}\<newline>}\<newline>''], info))))"
    by (simp only: extractResults_def Let_def p0_def out1_def)
  then have "extractResults s info out =
      Some (Inr (s\<lparr>kernelProfile := p2\<rparr>, out2 @ [Text ''\<newline>}\<newline>}\<newline>''], info))"
    by (simp add: t r)
  then show ?thesis unfolding p2 [symmetric] by (rule exI)
qed

text \<open>
  Claim C2. Let the counter array \<open>info\<close> have
  \<open>entries * basicBlocks * threadBlocks * threads\<close> elements (an array of a 64-bit
  address space: fewer than \<open>2 ^ 64\<close>), with at least one entry per block, two when
  the type is \<open>memoryIntensity\<close>, and a label for every block. Then \<open>extractResults\<close>
  returns, and whatever the profile \<open>q\<close> held before the call, the profile after it is:
  \<open>basicBlockExecutionCountMap[b]\<close> is the sum over every thread block and thread of
  \<open>info\<close> at the entry-0 slot of \<open>b\<close>, for every block \<open>b\<close>, and has no other key;
  \<open>memoryOperationsMap[b]\<close> is the sum of the entry-1 slots exactly when the type is
  \<open>memoryIntensity\<close>, and is empty otherwise.
\<close>

theorem extractResults_reduction:
  assumes len: "length info = unat (entries s) * unat (basicBlocks s) * unat (threadBlocks s) * unat (threads s)"
    and fits: "length info < 2 ^ 64"
    and pos: "0 < entries s"
    and mi: "type s = memoryIntensity \<longrightarrow> 2 \<le> entries s"
    and lab: "unat (basicBlocks s) \<le> length (labels s)"
  shows "\<exists>out'. extractResults (s\<lparr>kernelProfile := q\<rparr>) info out =
      Some (Inr (s\<lparr>kernelProfile :=
          \<lparr>basicBlockExecutionCountMap =
             (\<lambda>b. if b < ucast (basicBlocks s) then Some (blockSum s info b 0) else None),
           memoryOperationsMap =
             (\<lambda>b. if type s = memoryIntensity \<and> b < ucast (basicBlocks s)
                  then Some (blockSum s info b 1) else None)\<rparr>\<rparr>,
        out', info))"
proof -
  let ?s = "s\<lparr>kernelProfile := q\<rparr>"
  have ws: "wellSized ?s info" using len fits pos mi by (simp add: wellSized_def)
  have lab': "unat (basicBlocks ?s) \<le> length (labels ?s)" using lab by simp
  have bs: "blockSum ?s info b e = blockSum s info b e" for b e
    by (simp add: blockSum_def slotSum_def)
  have lt: "(unat b < unat (basicBlocks s)) = (b < ucast (basicBlocks s))" for b :: size_t
    by (simp add: word_less_nat_alt)
  have m: "(if type s = memoryIntensity
              then (\<lambda>b. if b < ucast (basicBlocks s) then Some (blockSum s info b 1) else None)
              else Map.empty)
       = (\<lambda>b. if type s = memoryIntensity \<and> b < ucast (basicBlocks s)
                  then Some (blockSum s info b 1) else None)"
    by auto
  have f: "basicBlocks ?s = basicBlocks s" "type ?s = type s" 
    "?s\<lparr>kernelProfile := x\<rparr> = s\<lparr>kernelProfile := x\<rparr>" for x by simp_all
  from extractResults_exact [OF ws lab', of out] show ?thesis
    unfolding bs f lt m .
qed

text \<open>
  The regression test of the specification: block 1 has the execution count 8124, the
  sum of \<open>1000 + 10 * t + k\<close> over the 4 threads and the 2 thread blocks.
\<close>

theorem extractResults_reduction_witness:
  "length regressionInfo = unat (entries regressionInstrumentor) * unat (basicBlocks regressionInstrumentor)
       * unat (threadBlocks regressionInstrumentor) * unat (threads regressionInstrumentor)
   \<and> length regressionInfo < 2 ^ 64
   \<and> 0 < entries regressionInstrumentor
   \<and> type regressionInstrumentor = memoryIntensity \<and> 2 \<le> entries regressionInstrumentor
   \<and> unat (basicBlocks regressionInstrumentor) \<le> length (labels regressionInstrumentor)
   \<and> (\<exists>out'. extractResults regressionInstrumentor regressionInfo [] =
      Some (Inr (regressionInstrumentor\<lparr>kernelProfile :=
          \<lparr>basicBlockExecutionCountMap =
             (\<lambda>b. if b < 3 then Some (blockSum regressionInstrumentor regressionInfo b 0) else None),
           memoryOperationsMap =
             (\<lambda>b. if b < 3 then Some (blockSum regressionInstrumentor regressionInfo b 1) else None)\<rparr>\<rparr>,
        out', regressionInfo)))
   \<and> blockSum regressionInstrumentor regressionInfo 0 0 = 124
   \<and> blockSum regressionInstrumentor regressionInfo 1 0 = 8124
   \<and> blockSum regressionInstrumentor regressionInfo 2 1 = 16924"
proof -
  have len: "length regressionInfo = unat (entries regressionInstrumentor) * unat (basicBlocks regressionInstrumentor)
       * unat (threadBlocks regressionInstrumentor) * unat (threads regressionInstrumentor)"
    by simp
  have fits: "length regressionInfo < 2 ^ 64" by simp
  have pos: "0 < entries regressionInstrumentor" by simp
  have mi: "type regressionInstrumentor = memoryIntensity \<longrightarrow> 2 \<le> entries regressionInstrumentor"
    by simp
  have lab: "unat (basicBlocks regressionInstrumentor) \<le> length (labels regressionInstrumentor)"
    by simp
  have sums: "blockSum regressionInstrumentor regressionInfo 0 0 = 124"
    "blockSum regressionInstrumentor regressionInfo 1 0 = 8124"
    "blockSum regressionInstrumentor regressionInfo 2 1 = 16924"
    by code_simp+
  from extractResults_reduction [OF len fits pos mi lab,
      of "\<lparr>basicBlockExecutionCountMap = Map.empty, memoryOperationsMap = Map.empty\<rparr>" "[]"]
  have "\<exists>out'. extractResults regressionInstrumentor regressionInfo [] =
      Some (Inr (regressionInstrumentor\<lparr>kernelProfile :=
          \<lparr>basicBlockExecutionCountMap =
             (\<lambda>b. if b < 3 then Some (blockSum regressionInstrumentor regressionInfo b 0) else None),
           memoryOperationsMap =
             (\<lambda>b. if b < 3 then Some (blockSum regressionInstrumentor regressionInfo b 1) else None)\<rparr>\<rparr>,
        out', regressionInfo))"
    by simp
  with len fits pos lab sums show ?thesis by simp
qed

subsection \<open>analyze\<close>

lemma pushLabels_filter:
  "pushLabels ls bs = ls @ filter (\<lambda>l. l \<noteq> ''entry'' \<and> l \<noteq> ''exit'') (map label bs)"
  by (induction bs arbitrary: ls) simp_all

lemma ucast_add_size_t: "(ucast (a + b :: size_t) :: uint) = ucast a + ucast b"
proof -
  have d: "(2 :: nat) ^ 32 dvd 2 ^ 64" by (intro le_imp_power_dvd) simp
  have "unat (ucast (a + b) :: uint) = (unat a + unat b) mod 2 ^ 32"
    using d by (simp add: unsigned_ucast_eq take_bit_eq_mod unat_word_ariths mod_mod_cancel)
  moreover have "unat ((ucast a :: uint) + ucast b) = (unat a + unat b) mod 2 ^ 32"
    by (simp add: unsigned_ucast_eq take_bit_eq_mod unat_word_ariths mod_add_eq)
  ultimately show ?thesis by (simp add: word_unat_eq_iff)
qed

lemma ucast_ucast_uint: "(ucast (ucast (bb :: uint) :: size_t) :: uint) = bb"
proof -
  have "unat bb < 2 ^ 32" using unsigned_less [of bb, where 'a = nat] by simp
  then have "unat (ucast (ucast bb :: size_t) :: uint) = unat bb"
    by (simp add: unsigned_ucast_eq [where 'c = 32] take_bit_eq_mod unat_ucast_uint)
  then show ?thesis by (simp add: word_unat_eq_iff)
qed

lemma sumKernels_sum:
  "sumKernels bb ks = bb + ucast (sum_list (map (\<lambda>(name, kern). dfgSize kern) ks))"
proof (induction ks arbitrary: bb)
  case Nil
  then show ?case by simp
next
  case (Cons k ks)
  obtain name kern where k: "k = (name, kern)" by (cases k)
  show ?case by (simp add: k Cons.IH ucast_add_size_t ucast_ucast_uint add.assoc)
qed

lemma analyze_named:
  assumes "kernelName s \<noteq> []" "map_of kernels (kernelName s) = Some kern"
  shows "analyze kernels s =
     Inr (s\<lparr>basicBlocks := ucast (dfgSize kern - 2),
            labels := labels s @ filter (\<lambda>l. l \<noteq> ''entry'' \<and> l \<noteq> ''exit'') (map label (cfg kern))\<rparr>)"
  using assms by (simp add: analyze_def Let_def pushLabels_filter)

lemma analyze_unnamed:
  assumes "kernelName s = []"
  shows "analyze kernels s =
     (case map_of kernels [] of
        None \<Rightarrow> Inl EndIteratorDereferenced
      | Some kern \<Rightarrow>
          Inr (s\<lparr>basicBlocks := ucast (sum_list (map (\<lambda>(name, kern). dfgSize kern) kernels)),
                 labels := labels s @ filter (\<lambda>l. l \<noteq> ''entry'' \<and> l \<noteq> ''exit'') (map label (cfg kern))\<rparr>))"
  using assms by (simp add: analyze_def Let_def pushLabels_filter sumKernels_sum split: option.splits)

text \<open>
  Claim C7, on the code. With no target kernel name, \<open>analyze\<close> looks the empty name up
  in the kernel map and dereferences the iterator it gets: on a module whose kernels
  all have names that is \<open>end()\<close>, and no label list is built. With the name of a
  kernel of the module it sets \<open>basicBlocks\<close> to the size of the kernel's graph minus
  2 and appends the labels of its blocks, in order, but for "entry" and "exit".
\<close>

theorem analyze_without_target_dereferences_end:
  "analyze sampleModule (regressionInstrumentor\<lparr>kernelName := []\<rparr>) = Inl EndIteratorDereferenced
   \<and> analyze sampleModule (regressionInstrumentor\<lparr>kernelName := ''kernelB'', labels := []\<rparr>)
       = Inr (regressionInstrumentor\<lparr>kernelName := ''kernelB'', labels := [''BB_1'', ''BB_2''],
                basicBlocks := 2\<rparr>)"
  by (simp add: analyze_def)

section \<open>Properties of MemoryTraceGenerator\<close>

subsection \<open>Header::address\<close>

lemma addressAll_append:
  "addressAll h sp (xs @ ys) = addressAll (addressAll h sp xs) sp ys"
  by (induction xs arbitrary: h) simp_all

lemma updateExtrema_min:
  "global_min_address (updateExtrema h a)
     = (if global_min_address h = 0 \<or> a < global_min_address h then a else global_min_address h)"
  by (simp add: updateExtrema_def Let_def)

lemma updateExtrema_max:
  "global_max_address (updateExtrema h a) = max (global_max_address h) a"
proof -
  have "global_max_address (updateExtrema h a)
     = (if global_max_address h = 0 \<or> a > global_max_address h then a else global_max_address h)"
    by (simp add: updateExtrema_def Let_def)
  also have "\<dots> = max (global_max_address h) a"
    by (auto simp add: max_def not_less)
  finally show ?thesis .
qed

lemma updateExtrema_words:
  "global_words (updateExtrema h a) = global_words h"
  "texture_words (updateExtrema h a) = texture_words h"
  by (simp_all add: updateExtrema_def Let_def)

lemma Header_address_min:
  "tracedSpace sp \<Longrightarrow> global_min_address (Header_address h sp a)
     = (if global_min_address h = 0 \<or> a < global_min_address h then a else global_min_address h)"
  by (auto simp add: tracedSpace_def Header_address_def Let_def updateExtrema_min)

lemma Header_address_max:
  "tracedSpace sp \<Longrightarrow> global_max_address (Header_address h sp a) = max (global_max_address h) a"
  by (auto simp add: tracedSpace_def Header_address_def Let_def updateExtrema_max)

lemma Header_address_words:
  "global_words (Header_address h sp a) = (if sp = Global then global_words h + 1 else global_words h)"
  "texture_words (Header_address h sp a) = (if sp = Texture then texture_words h + 1 else texture_words h)"
  by (cases sp; simp add: Header_address_def Let_def updateExtrema_words)+

lemma addressAll_min_nonzero:
  assumes "tracedSpace sp" "\<forall>a \<in> set xs. a \<noteq> 0" "global_min_address h \<noteq> 0"
  shows "global_min_address (addressAll h sp xs) = Min (insert (global_min_address h) (set xs))"
  using assms(2,3)
proof (induction xs arbitrary: h)
  case Nil
  then show ?case by simp
next
  case (Cons x xs)
  let ?h = "Header_address h sp x"
  have m: "global_min_address ?h = min (global_min_address h) x"
    using Cons.prems by (auto simp add: Header_address_min [OF assms(1)] min_def)
  then have nz: "global_min_address ?h \<noteq> 0" using Cons.prems by (auto simp add: min_def)
  have "global_min_address (addressAll ?h sp xs) = Min (insert (global_min_address ?h) (set xs))"
    using Cons.prems nz by (intro Cons.IH) simp_all
  also have "\<dots> = Min (insert (global_min_address h) (set (x # xs)))"
  proof (cases "xs = []")
    case True
    then show ?thesis by (simp add: m)
  next
    case False
    then show ?thesis by (simp add: m Min_insert min.assoc)
  qed
  finally show ?case by simp
qed

lemma addressAll_max:
  assumes "tracedSpace sp"
  shows "global_max_address (addressAll h sp xs) = Max (insert (global_max_address h) (set xs))"
proof (induction xs arbitrary: h)
  case Nil
  then show ?case by simp
next
  case (Cons x xs)
  let ?h = "Header_address h sp x"
  have "global_max_address (addressAll ?h sp xs) = Max (insert (global_max_address ?h) (set xs))"
    by (rule Cons.IH)
  also have "\<dots> = Max (insert (global_max_address h) (set (x # xs)))"
  proof (cases "xs = []")
    case True
    then show ?thesis by (simp add: Header_address_max [OF assms])
  next
    case False
    then show ?thesis by (simp add: Header_address_max [OF assms] Max_insert max.assoc)
  qed
  finally show ?case by simp
qed

lemma addressAll_words:
  "global_words (addressAll h sp xs) = (if sp = Global then global_words h + of_nat (length xs) else global_words h)"
  "texture_words (addressAll h sp xs) = (if sp = Texture then texture_words h + of_nat (length xs) else texture_words h)"
  by (induction xs arbitrary: h; simp add: Header_address_words)+

lemma addressAll_min_zeros:
  assumes "tracedSpace sp" "global_min_address h = 0"
  shows "global_min_address (addressAll h sp (replicate n 0)) = 0"
  using assms(2)
  by (induction n arbitrary: h) (simp_all add: Header_address_min [OF assms(1)])

lemma addressAll_min_last:
  assumes t: "tracedSpace sp" and nz: "\<forall>a \<in> set xs. a \<noteq> 0"
    and m: "global_min_address h \<noteq> 0"
  shows "global_min_address (addressAll h sp (xs @ [z]))
       = Min (insert (global_min_address h) (set (xs @ [z])))"
proof -
  define m where "m = Min (insert (global_min_address h) (set xs))"
  have mh: "global_min_address (addressAll h sp xs) = m"
    unfolding m_def by (rule addressAll_min_nonzero [OF t nz m])
  have "m \<in> insert (global_min_address h) (set xs)"
    unfolding m_def by (intro Min_in) simp_all
  then have nz': "m \<noteq> 0" using nz m by auto
  have "global_min_address (addressAll h sp (xs @ [z])) = (if m = 0 \<or> z < m then z else m)"
    by (simp only: addressAll_append addressAll.simps Header_address_min [OF t] mh)
  also have "\<dots> = min z m" using nz' by (auto simp add: min_def)
  also have "\<dots> = Min (insert z (insert (global_min_address h) (set xs)))"
    unfolding m_def by (simp add: Min_insert)
  also have "insert z (insert (global_min_address h) (set xs))
           = insert (global_min_address h) (set (xs @ [z]))" by auto
  finally show ?thesis .
qed

text \<open>
  Claim C8, as amended. For the \<open>Global\<close> space and for the \<open>Texture\<close> space, whatever
  the header and the addresses \<open>ys\<close> fed, zeros included, \<open>global_max_address\<close> is the
  maximum of its former value and of \<open>ys\<close>: from the zero sentinel it stays at zero
  through zero addresses and is the maximum of the addresses fed once there is one.
  On a header with both extrema at the zero sentinel, \<open>global_min_address\<close> stays at
  zero through zero addresses; from the first non-zero address on it is the minimum of
  the addresses fed since, on every call up to and including the first one whose
  address \<open>z\<close> is zero. On a header whose \<open>global_min_address\<close> is not zero it is, to the
  same extent, the minimum of its former value and of the addresses fed. Every call
  adds one to the word counter of its space. Calls for \<open>Const\<close>, \<open>Local\<close>, \<open>Param\<close> and
  \<open>Shared\<close> leave the header as it is. The addresses 100, 50, 200 fed to the \<open>Global\<close>
  space of a fresh header give minimum 50, maximum 200 and 3 words.
\<close>

theorem Header_address_extrema:
  assumes sp: "sp = Global \<or> sp = Texture"
    and nz: "\<forall>a \<in> set xs. a \<noteq> 0"
  shows "global_max_address (addressAll h sp ys) = Max (insert (global_max_address h) (set ys))
       \<and> (global_max_address h = 0 \<longrightarrow>
            global_max_address (addressAll h sp (replicate n 0)) = 0)
       \<and> (global_max_address h = 0 \<and> ys \<noteq> [] \<longrightarrow>
            global_max_address (addressAll h sp ys) = Max (set ys))
       \<and> (global_min_address h = 0 \<and> global_max_address h = 0 \<longrightarrow>
            global_min_address (addressAll h sp (replicate n 0)) = 0)
       \<and> (global_min_address h = 0 \<and> global_max_address h = 0 \<and> xs \<noteq> [] \<longrightarrow>
            global_min_address (addressAll h sp (replicate n 0 @ xs)) = Min (set xs)
            \<and> global_min_address (addressAll h sp (replicate n 0 @ xs @ [z]))
                = Min (set (xs @ [z])))
       \<and> (global_min_address h \<noteq> 0 \<longrightarrow>
            global_min_address (addressAll h sp xs)
                = Min (insert (global_min_address h) (set xs))
            \<and> global_min_address (addressAll h sp (xs @ [z]))
                = Min (insert (global_min_address h) (set (xs @ [z]))))
       \<and> global_words (addressAll h Global ys) = global_words h + of_nat (length ys)
       \<and> texture_words (addressAll h Texture ys) = texture_words h + of_nat (length ys)
       \<and> Header_address h' Const a = h' \<and> Header_address h' Local a = h'
       \<and> Header_address h' Param a = h' \<and> Header_address h' Shared a = h'
       \<and> global_min_address (addressAll newHeader Global [100, 50, 200]) = 50
       \<and> global_max_address (addressAll newHeader Global [100, 50, 200]) = 200
       \<and> global_words (addressAll newHeader Global [100, 50, 200]) = 3"
proof -
  have t: "tracedSpace sp" using sp by (simp add: tracedSpace_def)
  have mx: "global_max_address (addressAll h sp ys) = Max (insert (global_max_address h) (set ys))"
    for ys by (rule addressAll_max [OF t])
  have mxz: "global_max_address (addressAll h sp (replicate n 0)) = 0"
    if "global_max_address h = 0"
  proof (cases n)
    case 0
    then show ?thesis using that by simp
  next
    case (Suc k)
    then have "set (replicate n (0 :: PTXU64)) = {0}" by (intro set_replicate) simp
    then show ?thesis using that by (simp only: mx) simp
  qed
  have mxs: "global_max_address (addressAll h sp ys) = Max (set ys)"
    if "global_max_address h = 0" "ys \<noteq> []"
  proof -
    have "Max (insert 0 (set ys)) = Max (set ys)" using that(2) by (simp add: Max_insert max_def)
    then show ?thesis using that(1) by (simp only: mx)
  qed
  have mnz: "global_min_address (addressAll h sp (replicate n 0)) = 0"
    if "global_min_address h = 0"
    using that by (rule addressAll_min_zeros [OF t])
  have mn: "global_min_address (addressAll h sp (replicate n 0 @ xs)) = Min (set xs)
       \<and> global_min_address (addressAll h sp (replicate n 0 @ xs @ [z])) = Min (set (xs @ [z]))"
    if f: "global_min_address h = 0" and ne: "xs \<noteq> []"
  proof -
    let ?z = "addressAll h sp (replicate n 0)"
    obtain x xs' where xs: "xs = x # xs'" using ne by (cases xs) auto
    then have x: "x \<noteq> 0" and nz': "\<forall>a \<in> set xs'. a \<noteq> 0" using nz by simp_all
    let ?h1 = "Header_address ?z sp x"
    have m1: "global_min_address ?h1 = x" by (simp add: Header_address_min [OF t] mnz [OF f])
    then have m1': "global_min_address ?h1 \<noteq> 0" using x by simp
    have "global_min_address (addressAll ?h1 sp xs') = Min (insert (global_min_address ?h1) (set xs'))"
      by (rule addressAll_min_nonzero [OF t nz' m1'])
    then have a: "global_min_address (addressAll h sp (replicate n 0 @ xs)) = Min (set xs)"
      by (simp add: addressAll_append xs m1)
    have "global_min_address (addressAll ?h1 sp (xs' @ [z]))
        = Min (insert (global_min_address ?h1) (set (xs' @ [z])))"
      by (rule addressAll_min_last [OF t nz' m1'])
    then have b: "global_min_address (addressAll h sp (replicate n 0 @ xs @ [z])) = Min (set (xs @ [z]))"
      by (simp add: addressAll_append xs m1)
    from a b show ?thesis ..
  qed
  have mc: "global_min_address (addressAll h sp xs) = Min (insert (global_min_address h) (set xs))
            \<and> global_min_address (addressAll h sp (xs @ [z]))
                = Min (insert (global_min_address h) (set (xs @ [z])))"
    if "global_min_address h \<noteq> 0"
    using addressAll_min_nonzero [OF t nz that] addressAll_min_last [OF t nz that] by simp
  have ex: "global_min_address (addressAll newHeader Global [100, 50, 200]) = 50"
    "global_max_address (addressAll newHeader Global [100, 50, 200]) = 200"
    "global_words (addressAll newHeader Global [100, 50, 200]) = 3"
    by (simp_all add: newHeader_def Header_address_def updateExtrema_def Let_def)
  have noop: "Header_address h' Const a = h'" "Header_address h' Local a = h'"
    "Header_address h' Param a = h'" "Header_address h' Shared a = h'"
    by (simp_all add: Header_address_def)
  have w: "global_words (addressAll h Global ys) = global_words h + of_nat (length ys)"
    "texture_words (addressAll h Texture ys) = texture_words h + of_nat (length ys)"
    by (simp_all add: addressAll_words)
  from mx [of ys] mxz mxs mnz mn mc w ex noop show ?thesis by blast
qed

text \<open>
  The same on the \<open>Texture\<close> space: a fresh header fed 100, 0, 200, 0 for the maximum
  and two zeros, then 100, 50, 200, then 0 for the minimum; and a header that holds 70
  fed 100, 50, 200, then 60.
\<close>

theorem Header_address_extrema_witness:
  "(100 :: PTXU64) \<noteq> 0 \<and> (50 :: PTXU64) \<noteq> 0 \<and> (200 :: PTXU64) \<noteq> 0
   \<and> [100, 50, 200 :: PTXU64] \<noteq> [] \<and> [100, 0, 200, 0 :: PTXU64] \<noteq> []
   \<and> global_min_address newHeader = 0 \<and> global_max_address newHeader = 0
   \<and> global_max_address (addressAll newHeader Texture [100, 0, 200, 0]) = 200
   \<and> global_max_address (addressAll newHeader Texture (replicate 2 0)) = 0
   \<and> global_min_address (addressAll newHeader Texture (replicate 2 0)) = 0
   \<and> global_min_address (addressAll newHeader Texture (replicate 2 0 @ [100, 50, 200])) = 50
   \<and> global_min_address (addressAll newHeader Texture (replicate 2 0 @ [100, 50, 200] @ [0])) = 0
   \<and> global_min_address (newHeader\<lparr>global_min_address := 70, global_max_address := 70\<rparr>) \<noteq> 0
   \<and> global_min_address (addressAll (newHeader\<lparr>global_min_address := 70, global_max_address := 70\<rparr>)
        Texture [100, 50, 200]) = 50
   \<and> global_min_address (addressAll (newHeader\<lparr>global_min_address := 70, global_max_address := 70\<rparr>)
        Texture ([100, 50, 200] @ [60])) = 50
   \<and> global_max_address (addressAll (newHeader\<lparr>global_min_address := 70, global_max_address := 70\<rparr>)
        Texture [10, 0]) = 70
   \<and> texture_words (addressAll newHeader Texture [100, 0, 200, 0]) = 4"
proof -
  have nz: "\<forall>a \<in> set [100, 50, 200 :: PTXU64]. a \<noteq> 0" by simp
  have fresh: "global_min_address newHeader = 0" "global_max_address newHeader = 0"
    "texture_words newHeader = 0"
    by (simp_all add: newHeader_def)
  have used: "global_min_address (newHeader\<lparr>global_min_address := 70, global_max_address := 70\<rparr>) \<noteq> 0"
    "global_max_address (newHeader\<lparr>global_min_address := 70, global_max_address := 70\<rparr>) = 70"
    by simp_all
  from Header_address_extrema [OF disjI2 [OF refl] nz, of newHeader "[100, 0, 200, 0]" 2 0]
    Header_address_extrema [OF disjI2 [OF refl] nz,
      of "newHeader\<lparr>global_min_address := 70, global_max_address := 70\<rparr>" "[10, 0]" 0 60]
  show ?thesis using fresh used by simp
qed

text \<open>
  The claim as stated fails on the addresses 100, 0, 200 fed to the \<open>Global\<close> space of
  a fresh header: \<open>global_min_address\<close> is 100 after the first call, 0 after the second
  and 200 after the third, while the standard minimum of the three addresses is 0.
\<close>

theorem Header_address_zero_counterexample:
  "global_min_address (addressAll newHeader Global [100]) = 100
   \<and> global_min_address (addressAll newHeader Global [100, 0]) = 0
   \<and> global_min_address (addressAll newHeader Global [100, 0, 200]) = 200
   \<and> min (min (100 :: PTXU64) 0) 200 = 0"
  by (simp add: newHeader_def Header_address_def updateExtrema_def Let_def)

subsection \<open>finish\<close>

text \<open>
  Claim C9. After a call of \<open>finish\<close> the pointer \<open>_file\<close> is null, so a second call,
  whatever the world it runs in, changes neither the world (no registration, no header
  written) nor the generator, and throws nothing. This holds after every first call,
  in particular after one that completed.
\<close>

theorem finish_twice_noop:
  "finish canOpen2 w2 (fst (snd (finish canOpen1 w1 g))) = (w2, fst (snd (finish canOpen1 w1 g)), None)
   \<and> file_stream (fst (snd (finish canOpen1 w1 g))) = None"
  by (simp add: finish_def Let_def split: option.splits)

subsection \<open>event\<close>

lemma skipInactive_returns:
  "unat tc \<le> length act \<Longrightarrow> \<exists>t. skipInactive act tc tid = Inr t"
proof (induction act tc tid rule: skipInactive.induct)
  case (1 act tc tid)
  show ?case
  proof (cases "tid < tc")
    case True
    then have l: "unat tid < length act" using "1.prems" by (simp add: word_less_nat_alt)
    show ?thesis
    proof (cases "act ! unat tid")
      case a: True
      show ?thesis by (subst skipInactive.simps) (simp add: True l a)
    next
      case a: False
      from "1.IH" [OF True l a "1.prems"] obtain t where "skipInactive act tc (tid + 1) = Inr t" ..
      then show ?thesis by (subst skipInactive.simps) (simp add: True l a)
    qed
  next
    case False
    show ?thesis by (subst skipInactive.simps) (simp add: False)
  qed
qed

lemma sameCounters_refl: "sameCounters h h"
  by (simp add: sameCounters_def)

lemma sameCounters_trans: "sameCounters h h1 \<Longrightarrow> sameCounters h1 h2 \<Longrightarrow> sameCounters h h2"
  by (simp add: sameCounters_def)

lemma sameCounters_address: "sameCounters h (Header_address h sp a)"
  by (cases sp) (simp_all add: sameCounters_def Header_address_def updateExtrema_def Let_def)

lemma sameCounters_access: "sameCounters h (Header_access h sp b)"
  by (cases sp) (simp_all add: sameCounters_def Header_access_def)

lemma sameCounters_countSegment:
  "sameCounters (ls_header st) (ls_header (countSegment hw a sz st))"
  by (simp add: sameCounters_def countSegment_def)

lemma laneLoop_sameCounters:
  "laneLoop ho copies sp act hw addrs sizes st = Inr st'
     \<Longrightarrow> sameCounters (ls_header st) (ls_header st')"
proof (induction ho copies sp act hw addrs sizes st rule: laneLoop.induct)
  case (1 ho copies space act halfwarpSize sizes st)
  then show ?case by (simp add: sameCounters_refl)
next
  case (2 ho copies space act halfwarpSize addr addrs st)
  then show ?case by simp
next
  case (3 ho copies space act halfwarpSize addr addrs sz sizes st)
  from "3.prems" obtain st1 where
    s1: "(if \<not> ho then
              (case skipInactive act (thread_count (ls_header st)) (ls_threadID st) of
                 Inl f \<Rightarrow> Inl f
               | Inr tid \<Rightarrow>
                   Inr (st\<lparr>ls_threadID := tid,
                          ls_event := (ls_event st)\<lparr>accesses := accesses (ls_event st)
                             @ replicate copies \<lparr>address = addr, threadID = tid, size_bytes = sz\<rparr>\<rparr>\<rparr>))
            else Inr st) = Inr st1"
    by (auto split: sum.splits)
  then have h1: "ls_header st1 = ls_header st" by (auto split: if_splits sum.splits)
  define st2 where "st2 = st1\<lparr>ls_header := Header_address (ls_header st1) space addr,
                         ls_bytes := ls_bytes st1 + ucast sz\<rparr>"
  define st3 where "st3 = countSegment halfwarpSize addr sz st2"
  have rec: "laneLoop ho copies space act halfwarpSize addrs sizes
                (st3\<lparr>ls_threadID := ls_threadID st3 + 1\<rparr>) = Inr st'"
    using "3.prems" s1 by (simp add: st2_def st3_def Let_def)
  have "sameCounters (ls_header (st3\<lparr>ls_threadID := ls_threadID st3 + 1\<rparr>)) (ls_header st')"
    using "3.IH" [OF s1 st2_def st3_def rec] .
  moreover have "sameCounters (ls_header st) (ls_header st2)"
    by (simp add: st2_def h1 sameCounters_address)
  moreover have "sameCounters (ls_header st2) (ls_header st3)"
    by (simp add: st3_def sameCounters_countSegment)
  ultimately show ?case by (auto intro: sameCounters_trans)
qed

lemma laneLoop_returns:
  "length addrs \<le> length sizes
     \<Longrightarrow> ho \<or> unat (thread_count (ls_header st)) \<le> length act
     \<Longrightarrow> \<exists>st'. laneLoop ho copies sp act hw addrs sizes st = Inr st'"
proof (induction ho copies sp act hw addrs sizes st rule: laneLoop.induct)
  case (1 ho copies space act halfwarpSize sizes st)
  then show ?case by simp
next
  case (2 ho copies space act halfwarpSize addr addrs st)
  then show ?case by simp
next
  case (3 ho copies space act halfwarpSize addr addrs sz sizes st)
  have "\<exists>st1. (if \<not> ho then
              (case skipInactive act (thread_count (ls_header st)) (ls_threadID st) of
                 Inl f \<Rightarrow> Inl f
               | Inr tid \<Rightarrow>
                   Inr (st\<lparr>ls_threadID := tid,
                          ls_event := (ls_event st)\<lparr>accesses := accesses (ls_event st)
                             @ replicate copies \<lparr>address = addr, threadID = tid, size_bytes = sz\<rparr>\<rparr>\<rparr>))
            else Inr st) = Inr st1 \<and> ls_header st1 = ls_header st"
  proof (cases ho)
    case True
    then show ?thesis by simp
  next
    case False
    then have "unat (thread_count (ls_header st)) \<le> length act" using "3.prems"(2) by simp
    from skipInactive_returns [OF this, of "ls_threadID st"] obtain t where
      "skipInactive act (thread_count (ls_header st)) (ls_threadID st) = Inr t" ..
    then show ?thesis using False by simp
  qed
  then obtain st1 where
    s1: "(if \<not> ho then
              (case skipInactive act (thread_count (ls_header st)) (ls_threadID st) of
                 Inl f \<Rightarrow> Inl f
               | Inr tid \<Rightarrow>
                   Inr (st\<lparr>ls_threadID := tid,
                          ls_event := (ls_event st)\<lparr>accesses := accesses (ls_event st)
                             @ replicate copies \<lparr>address = addr, threadID = tid, size_bytes = sz\<rparr>\<rparr>\<rparr>))
            else Inr st) = Inr st1"
    and h1: "ls_header st1 = ls_header st" by blast
  define st2 where "st2 = st1\<lparr>ls_header := Header_address (ls_header st1) space addr,
                         ls_bytes := ls_bytes st1 + ucast sz\<rparr>"
  define st3 where "st3 = countSegment halfwarpSize addr sz st2"
  have "sameCounters (ls_header st) (ls_header st2)"
    by (simp add: st2_def h1 sameCounters_address)
  moreover have "sameCounters (ls_header st2) (ls_header st3)"
    by (simp add: st3_def sameCounters_countSegment)
  ultimately have "thread_count (ls_header st3) = thread_count (ls_header st)"
    by (simp add: sameCounters_def)
  then have tc: "ho \<or> unat (thread_count (ls_header (st3\<lparr>ls_threadID := ls_threadID st3 + 1\<rparr>))) \<le> length act"
    using "3.prems"(2) by simp
  have len: "length addrs \<le> length sizes" using "3.prems"(1) by simp
  from "3.IH" [OF s1 st2_def st3_def len tc] obtain st' where
    "laneLoop ho copies space act halfwarpSize addrs sizes
                (st3\<lparr>ls_threadID := ls_threadID st3 + 1\<rparr>) = Inr st'" ..
  then show ?case using s1 by (simp add: st2_def st3_def Let_def)
qed

lemma traceAccesses_counters:
  "traceAccesses g ev copies sp = Inr g' \<Longrightarrow> sameCounters (header g) (header g')"
proof -
  assume a: "traceAccesses g ev copies sp = Inr g'"
  define st0 where "st0 = \<lparr>ls_header = header g,
        ls_event = (if \<not> headerOnly g then newEvent ev sp else event_record g),
        ls_bytes = 0, ls_threadID = 0, ls_starting_address = - 1\<rparr>"
  from a obtain st where
    l: "laneLoop (headerOnly g) copies sp (active ev) (thread_count (header g) div 2)
                (memory_addresses ev) (memory_sizes ev) st0 = Inr st"
    and g': "header g' = Header_access (ls_header st) sp (ls_bytes st)"
    by (auto simp add: traceAccesses_def Let_def st0_def split: sum.splits)
  have "sameCounters (ls_header st0) (ls_header st)" using l by (rule laneLoop_sameCounters)
  moreover have "sameCounters (ls_header st) (header g')" by (simp add: g' sameCounters_access)
  ultimately show ?thesis by (auto simp add: st0_def intro: sameCounters_trans)
qed

lemma traceAccesses_returns:
  assumes "length (memory_addresses ev) \<le> length (memory_sizes ev)"
    and "headerOnly g \<or> unat (thread_count (header g)) \<le> length (active ev)"
  shows "\<exists>g'. traceAccesses g ev copies sp = Inr g'"
proof -
  define st0 where "st0 = \<lparr>ls_header = header g,
        ls_event = (if \<not> headerOnly g then newEvent ev sp else event_record g),
        ls_bytes = 0, ls_threadID = 0, ls_starting_address = - 1\<rparr>"
  have "headerOnly g \<or> unat (thread_count (ls_header st0)) \<le> length (active ev)"
    using assms(2) by (simp add: st0_def)
  from laneLoop_returns [OF assms(1) this] obtain st where
    "laneLoop (headerOnly g) copies sp (active ev) (thread_count (header g) div 2)
                (memory_addresses ev) (memory_sizes ev) st0 = Inr st" by blast
  then show ?thesis by (simp add: traceAccesses_def Let_def st0_def)
qed

text \<open>
  Claim C10. Whenever \<open>event\<close> returns, whatever the opcode, \<open>dynamic_instructions\<close> is
  one more and \<open>dynamic_operations\<close> is the number of set bits of the active mask more
  than before. For an opcode that is not a load, a store or a texture fetch the call
  returns and changes nothing else. For the three memory opcodes the call returns when
  \<open>memory_sizes\<close> is as long as \<open>memory_addresses\<close> and, unless the generator is
  header-only, the active mask has a bit for every thread of the header's
  \<open>thread_count\<close>.
\<close>

theorem event_dynamic_counters:
  "(event g ev = Inr g' \<longrightarrow>
      dynamic_instructions (header g') = dynamic_instructions (header g) + 1
      \<and> dynamic_operations (header g')
          = dynamic_operations (header g) + of_nat (activeCount (active ev)))
   \<and> (opcode (instruction ev) \<noteq> Ld \<and> opcode (instruction ev) \<noteq> St \<and> opcode (instruction ev) \<noteq> Tex \<longrightarrow>
      event g ev = Inr (g\<lparr>header := (header g)\<lparr>
          dynamic_instructions := dynamic_instructions (header g) + 1,
          dynamic_operations := dynamic_operations (header g) + of_nat (activeCount (active ev))\<rparr>\<rparr>))
   \<and> (length (memory_addresses ev) \<le> length (memory_sizes ev)
       \<and> (headerOnly g \<or> unat (thread_count (header g)) \<le> length (active ev)) \<longrightarrow>
      (\<exists>g1. event g ev = Inr g1))"
proof (intro conjI impI)
  define g1 where "g1 = g\<lparr>header := (header g)\<lparr>
                  dynamic_instructions := dynamic_instructions (header g) + 1,
                  dynamic_operations := dynamic_operations (header g) + of_nat (activeCount (active ev))\<rparr>\<rparr>"
  have ev: "event g ev =
      (if opcode (instruction ev) = Ld \<or> opcode (instruction ev) = St then
           traceAccesses g1 ev 1 (addressSpace (instruction ev))
         else if opcode (instruction ev) = Tex then
           traceAccesses g1 ev 4 Texture
         else Inr g1)"
    by (simp add: event_def g1_def Let_def)
  {
    assume a: "event g ev = Inr g'"
    have "sameCounters (header g1) (header g')"
      using a ev by (auto simp add: sameCounters_refl intro: traceAccesses_counters split: if_splits)
    then show "dynamic_instructions (header g') = dynamic_instructions (header g) + 1"
      and "dynamic_operations (header g')
          = dynamic_operations (header g) + of_nat (activeCount (active ev))"
      by (simp_all add: sameCounters_def g1_def)
  }
  {
    assume "opcode (instruction ev) \<noteq> Ld \<and> opcode (instruction ev) \<noteq> St \<and> opcode (instruction ev) \<noteq> Tex"
    then show "event g ev = Inr (g\<lparr>header := (header g)\<lparr>
          dynamic_instructions := dynamic_instructions (header g) + 1,
          dynamic_operations := dynamic_operations (header g) + of_nat (activeCount (active ev))\<rparr>\<rparr>)"
      using ev by (simp add: g1_def)
  }
  {
    assume w: "length (memory_addresses ev) \<le> length (memory_sizes ev)
       \<and> (headerOnly g \<or> unat (thread_count (header g)) \<le> length (active ev))"
    then have "headerOnly g1 \<or> unat (thread_count (header g1)) \<le> length (active ev)"
      by (simp add: g1_def)
    with w have "\<exists>g'. traceAccesses g1 ev copies sp = Inr g'" for copies sp
      by (intro traceAccesses_returns) simp_all
    then show "\<exists>g1. event g ev = Inr g1" using ev by auto
  }
qed

text \<open>A header-only load, and an instruction that is no memory operation.\<close>

theorem event_dynamic_counters_witness:
  "length (memory_addresses (sampleLoad [True, False, True] [16, 32] [4, 4]))
     \<le> length (memory_sizes (sampleLoad [True, False, True] [16, 32] [4, 4]))
   \<and> headerOnly (sampleGenerator True)
   \<and> (\<exists>g1. event (sampleGenerator True) (sampleLoad [True, False, True] [16, 32] [4, 4]) = Inr g1)
   \<and> event (sampleGenerator False)
        \<lparr>PC = 9, instruction = \<lparr>opcode = OtherOpcode 3, addressSpace = AddressSpace_Invalid\<rparr>,
         blockId = \<lparr>dimX = 0, dimY = 0, dimZ = 0\<rparr>,
         active = [True, False, True], memory_addresses = [], memory_sizes = []\<rparr>
       = Inr ((sampleGenerator False)\<lparr>header := newHeader\<lparr>thread_count := 8,
                dynamic_instructions := 1, dynamic_operations := 2\<rparr>\<rparr>)"
  using event_dynamic_counters [of "sampleGenerator True" "sampleLoad [True, False, True] [16, 32] [4, 4]"]
    event_dynamic_counters [of "sampleGenerator False"
        "\<lparr>PC = 9, instruction = \<lparr>opcode = OtherOpcode 3, addressSpace = AddressSpace_Invalid\<rparr>,
         blockId = \<lparr>dimX = 0, dimY = 0, dimZ = 0\<rparr>,
         active = [True, False, True], memory_addresses = [], memory_sizes = []\<rparr>"]
  by (simp add: newHeader_def activeCount_def)

text \<open>
  With \<open>headerOnly\<close> no \<open>Access\<close> record is appended and no event is serialized, over
  any sequence of events.
\<close>

lemma event_keeps_headerOnly:
  "event g ev = Inr g' \<Longrightarrow> headerOnly g' = headerOnly g"
  by (auto simp add: event_def traceAccesses_def Let_def split: if_splits sum.splits)

lemma laneLoop_headerOnly_event:
  "laneLoop True copies sp act hw addrs sizes st = Inr st' \<Longrightarrow> ls_event st' = ls_event st"
proof (induction True copies sp act hw addrs sizes st rule: laneLoop.induct)
  case (1 copies space act halfwarpSize sizes st)
  then show ?case by simp
next
  case (2 copies space act halfwarpSize addr addrs st)
  then show ?case by simp
next
  case (3 copies space act halfwarpSize addr addrs sz sizes st)
  define st2 where "st2 = st\<lparr>ls_header := Header_address (ls_header st) space addr,
                         ls_bytes := ls_bytes st + ucast sz\<rparr>"
  define st3 where "st3 = countSegment halfwarpSize addr sz st2"
  have rec: "laneLoop True copies space act halfwarpSize addrs sizes
                (st3\<lparr>ls_threadID := ls_threadID st3 + 1\<rparr>) = Inr st'"
    using "3.prems" by (simp add: st2_def st3_def Let_def)
  have "ls_event st' = ls_event (st3\<lparr>ls_threadID := ls_threadID st3 + 1\<rparr>)"
    using "3.hyps" [OF _ st2_def st3_def rec] by simp
  also have "\<dots> = ls_event st" by (simp add: st3_def st2_def countSegment_def)
  finally show ?case .
qed

lemma event_headerOnly_appends_nothing:
  assumes "headerOnly g" "event g ev = Inr g'"
  shows "archive g' = archive g \<and> event_record g' = event_record g"
  using assms
  by (auto simp add: event_def traceAccesses_def Let_def
        dest!: laneLoop_headerOnly_event split: if_splits sum.splits)

lemma events_headerOnly_appends_nothing:
  "headerOnly g \<Longrightarrow> events g evs = Inr g'
     \<Longrightarrow> archive g' = archive g \<and> event_record g' = event_record g"
proof (induction evs arbitrary: g)
  case Nil
  then show ?case by simp
next
  case (Cons ev evs)
  then obtain g1 where e: "event g ev = Inr g1" and r: "events g1 evs = Inr g'"
    by (auto split: sum.splits)
  have "headerOnly g1" using e Cons.prems(1) by (simp add: event_keeps_headerOnly)
  from Cons.IH [OF this r] event_headerOnly_appends_nothing [OF Cons.prems(1) e]
  show ?case by simp
qed

text \<open>
  Claim C3, on the code. A load of a kernel of 8 threads whose active lanes are 6 and
  7, with addresses 0 and 4 of 4 bytes each. Without \<open>headerOnly\<close> the scan to the next
  active lane sets \<open>threadID\<close> to 6 and 7, both beyond the half warp: 2 segments and 2
  half warps. With \<open>headerOnly\<close> the scan is skipped, \<open>threadID\<close> is 0 and 1, and the
  header counts 1 segment and no half warp.
\<close>

theorem event_headerOnly_skips_lane_scan:
  "segmentCounts (event (sampleGenerator False)
       (sampleLoad [False, False, False, False, False, False, True, True] [0, 4] [4, 4])) = Some (2, 2)
   \<and> segmentCounts (event (sampleGenerator True)
       (sampleLoad [False, False, False, False, False, False, True, True] [0, 4] [4, 4])) = Some (1, 0)"
  by code_simp

text \<open>
  Claim C4, on the code. With 8 threads and the lanes 0 to 3 active, the addresses
  0, 4, 8, 12 of 4 bytes each count 2 segments, not 1: \<open>starting_address\<close> is advanced
  only when a segment is counted, so after the access at 4, which continues the
  segment, it is still 4 and the access at 8 starts a segment. The addresses
  0, 4, 100, 104 count 2 segments. Neither counts a half warp.
\<close>

theorem event_contiguous_lanes_two_segments:
  "segmentCounts (event (sampleGenerator False)
       (sampleLoad [True, True, True, True, False, False, False, False] [0, 4, 8, 12] [4, 4, 4, 4])) = Some (2, 0)
   \<and> segmentCounts (event (sampleGenerator False)
       (sampleLoad [True, True, True, True, False, False, False, False] [0, 4, 100, 104] [4, 4, 4, 4])) = Some (2, 0)"
  by code_simp

subsection \<open>extent\<close>

lemma shift_or_numeric:
  fixes addr :: PTXU64 and v :: "'a::len word"
  assumes n: "LENGTH('a) \<le> 64"
  shows "unat (push_bit LENGTH('a) addr OR ucast v)
       = (unat addr * 2 ^ LENGTH('a) + unat v) mod 2 ^ 64"
proof -
  have disj: "\<not> bit (push_bit LENGTH('a) addr) k \<or> \<not> bit (ucast v :: PTXU64) k" for k
    by (auto simp add: bit_push_bit_iff bit_ucast_iff dest: bit_imp_le_length)
  have "push_bit LENGTH('a) addr OR ucast v = push_bit LENGTH('a) addr + (ucast v :: PTXU64)"
    using disjunctive_add [of "push_bit LENGTH('a) addr" "ucast v :: PTXU64"] disj by simp
  then have "unat (push_bit LENGTH('a) addr OR ucast v)
      = (unat (push_bit LENGTH('a) addr) + unat (ucast v :: PTXU64)) mod 2 ^ 64"
    by (simp add: unat_word_ariths)
  moreover have "unat (push_bit LENGTH('a) addr) = (unat addr * 2 ^ LENGTH('a)) mod 2 ^ 64"
  proof -
    have "unat (push_bit LENGTH('a) addr) = take_bit LENGTH(64) (push_bit LENGTH('a) (unat addr))"
      by (rule unsigned_push_bit_eq)
    also have "\<dots> = (unat addr * 2 ^ LENGTH('a)) mod 2 ^ 64"
      by (simp add: push_bit_eq_mult take_bit_eq_mod)
    finally show ?thesis .
  qed
  moreover have "unat (ucast v :: PTXU64) = unat v"
  proof -
    have "unat v < 2 ^ LENGTH('a)" by (rule unsigned_less)
    also have "(2 :: nat) ^ LENGTH('a) \<le> 2 ^ 64" using n by (intro power_increasing) simp_all
    finally show ?thesis by (simp add: unsigned_ucast_eq take_bit_nat_eq_self)
  qed
  ultimately show ?thesis by (simp add: mod_add_left_eq)
qed

lemma unat_val:
  "unat (val_u8 e) = unat e mod 2 ^ 8"
  "unat (val_u16 e) = unat e mod 2 ^ 16"
  "unat (val_u32 e) = unat e mod 2 ^ 32"
  by (simp_all add: val_u8_def val_u16_def val_u32_def unsigned_ucast_eq take_bit_eq_mod)

lemma packElement_numeric:
  "ty = b8 \<or> ty = s8 \<or> ty = u8 \<Longrightarrow>
     unat (packElement ty addr e) = (unat addr * 2 ^ 8 + unat e mod 2 ^ 8) mod 2 ^ 64"
  "ty = b16 \<or> ty = s16 \<or> ty = u16 \<Longrightarrow>
     unat (packElement ty addr e) = (unat addr * 2 ^ 16 + unat e mod 2 ^ 16) mod 2 ^ 64"
  "ty = b32 \<or> ty = s32 \<or> ty = u32 \<Longrightarrow>
     unat (packElement ty addr e) = (unat addr * 2 ^ 32 + unat e mod 2 ^ 32) mod 2 ^ 64"
  "ty = b64 \<or> ty = s64 \<or> ty = u64 \<Longrightarrow> packElement ty addr e = e"
  "ty = otherDataType \<Longrightarrow> packElement ty addr e = addr"
proof -
  show "ty = b8 \<or> ty = s8 \<or> ty = u8 \<Longrightarrow>
     unat (packElement ty addr e) = (unat addr * 2 ^ 8 + unat e mod 2 ^ 8) mod 2 ^ 64"
    using shift_or_numeric [where v = "val_u8 e" and addr = addr] by (auto simp add: packElement_def unat_val)
  show "ty = b16 \<or> ty = s16 \<or> ty = u16 \<Longrightarrow>
     unat (packElement ty addr e) = (unat addr * 2 ^ 16 + unat e mod 2 ^ 16) mod 2 ^ 64"
    using shift_or_numeric [where v = "val_u16 e" and addr = addr] by (auto simp add: packElement_def unat_val)
  show "ty = b32 \<or> ty = s32 \<or> ty = u32 \<Longrightarrow>
     unat (packElement ty addr e) = (unat addr * 2 ^ 32 + unat e mod 2 ^ 32) mod 2 ^ 64"
    using shift_or_numeric [where v = "val_u32 e" and addr = addr] by (auto simp add: packElement_def unat_val)
  show "ty = b64 \<or> ty = s64 \<or> ty = u64 \<Longrightarrow> packElement ty addr e = e"
    by (auto simp add: packElement_def val_u64_def)
  show "ty = otherDataType \<Longrightarrow> packElement ty addr e = addr"
    by (simp add: packElement_def)
qed

lemma checkAddress_resolve:
  "checkAddress kern addr st = (case resolve kern addr of None \<Rightarrow> st | Some hit \<Rightarrow> addHit st hit)"
  by (simp add: checkAddress_def resolve_def addHit_def Let_def)

lemma elementLoop_candidates:
  "elementLoop kern ty es addr st
     = foldl addHit st (List.map_filter (resolve kern) (candidates ty addr es))"
  by (induction es arbitrary: addr st)
     (simp_all add: Let_def checkAddress_resolve List.map_filter_simps split: option.splits)

lemma parameterLoop_hits:
  "parameterLoop kern ps st
     = foldl addHit st
         (concat (map (\<lambda>p. List.map_filter (resolve kern) (candidates (paramType p) 0 (arrayValues p))) ps))"
  by (induction ps arbitrary: st) (simp_all add: elementLoop_candidates)

lemma firstSize_Cons:
  "firstSize ((p, sz) # hs) q = (if q = p then sz else firstSize hs q)"
  by (simp add: firstSize_def)

lemma foldl_addHit:
  "foldl addHit (enc, ext) hs
     = (enc \<union> fst ` set hs, ext + (\<Sum>p \<in> fst ` set hs - enc. firstSize hs p))"
proof (induction hs arbitrary: enc ext)
  case Nil
  then show ?case by simp
next
  case (Cons h hs)
  obtain p sz where h: "h = (p, sz)" by (cases h)
  let ?A = "fst ` set (h # hs)"
  show ?case
  proof (cases "p \<in> enc")
    case True
    have s: "?A - enc = fst ` set hs - enc" using True by (auto simp add: h)
    have u: "enc \<union> ?A = enc \<union> fst ` set hs" using True by (auto simp add: h)
    have e: "(\<Sum>q \<in> fst ` set hs - enc. firstSize (h # hs) q) = (\<Sum>q \<in> fst ` set hs - enc. firstSize hs q)"
      using True by (intro sum.cong) (auto simp add: h firstSize_Cons)
    have "foldl addHit (enc, ext) (h # hs) = foldl addHit (enc, ext) hs"
      using True by (simp add: h addHit_def)
    also have "\<dots> = (enc \<union> fst ` set hs, ext + (\<Sum>q \<in> fst ` set hs - enc. firstSize hs q))"
      by (rule Cons.IH)
    also have "\<dots> = (enc \<union> ?A, ext + (\<Sum>q \<in> ?A - enc. firstSize (h # hs) q))"
      by (simp only: s u e)
    finally show ?thesis .
  next
    case False
    let ?R = "fst ` set hs - insert p enc"
    have s: "?A - enc = insert p ?R" using False by (auto simp add: h)
    have u: "enc \<union> ?A = insert p enc \<union> fst ` set hs" by (auto simp add: h)
    have "(\<Sum>q \<in> insert p ?R. firstSize (h # hs) q) = firstSize (h # hs) p + (\<Sum>q \<in> ?R. firstSize (h # hs) q)"
      by (intro sum.insert) simp_all
    also have "(\<Sum>q \<in> ?R. firstSize (h # hs) q) = (\<Sum>q \<in> ?R. firstSize hs q)"
      by (intro sum.cong) (auto simp add: h firstSize_Cons)
    also have "firstSize (h # hs) p = sz" by (simp add: h firstSize_Cons)
    finally have e: "(\<Sum>q \<in> ?A - enc. firstSize (h # hs) q) = sz + (\<Sum>q \<in> ?R. firstSize hs q)"
      by (simp only: s)
    have "foldl addHit (enc, ext) (h # hs) = foldl addHit (insert p enc, ext + sz) hs"
      using False by (simp add: h addHit_def)
    also have "\<dots> = (insert p enc \<union> fst ` set hs, ext + sz + (\<Sum>q \<in> ?R. firstSize hs q))"
      by (rule Cons.IH)
    also have "\<dots> = (enc \<union> ?A, ext + (\<Sum>q \<in> ?A - enc. firstSize (h # hs) q))"
      by (simp only: u e add.assoc)
    finally show ?thesis .
  qed
qed

lemma extent_hits: "extent kern = (\<Sum>p \<in> fst ` set (hits kern). firstSize (hits kern) p)"
  by (simp add: extent_def hits_def parameterLoop_hits foldl_addHit)

text \<open>
  Claim C6. The extent is the sum, over the distinct identities among the allocations
  that the candidate addresses of all the parameter elements resolve to, of the size
  the identity was first found with: each identity counts once, however many elements
  resolve to it. A candidate that neither table knows resolves to nothing and leaves
  the set and the total as they are; \<open>extent\<close> is a total function and has no error.
  For the 8-, 16- and 32-bit types the address after an element is the address before
  it times \<open>2 ^ width\<close> plus the low \<open>width\<close> bits of the element, in 64 bits; for the
  64-bit types it is the element.
\<close>

theorem extent_counts_each_allocation_once:
  "extent kern = (\<Sum>p \<in> fst ` set (hits kern). firstSize (hits kern) p)
   \<and> (global_space (getGlobalMemoryAllocation kern a) = AddressSpace_Invalid
        \<and> alloc_isa (getMemoryAllocation kern a) = Unknown
      \<longrightarrow> resolve kern a = None \<and> checkAddress kern a st = st)
   \<and> (ty = b8 \<or> ty = s8 \<or> ty = u8 \<longrightarrow>
        unat (packElement ty addr e) = (unat addr * 2 ^ 8 + unat e mod 2 ^ 8) mod 2 ^ 64)
   \<and> (ty = b16 \<or> ty = s16 \<or> ty = u16 \<longrightarrow>
        unat (packElement ty addr e) = (unat addr * 2 ^ 16 + unat e mod 2 ^ 16) mod 2 ^ 64)
   \<and> (ty = b32 \<or> ty = s32 \<or> ty = u32 \<longrightarrow>
        unat (packElement ty addr e) = (unat addr * 2 ^ 32 + unat e mod 2 ^ 32) mod 2 ^ 64)
   \<and> (ty = b64 \<or> ty = s64 \<or> ty = u64 \<longrightarrow> packElement ty addr e = e)"
proof -
  have "global_space (getGlobalMemoryAllocation kern a) = AddressSpace_Invalid
        \<and> alloc_isa (getMemoryAllocation kern a) = Unknown
      \<longrightarrow> resolve kern a = None \<and> checkAddress kern a st = st"
    by (simp add: checkAddress_resolve resolve_def)
  then show ?thesis
    using extent_hits [of kern] packElement_numeric [of ty addr e] by blast
qed

text \<open>
  A kernel with a pointer parameter, a pair of 32-bit words and a pair of bytes: the
  first two resolve to the same allocation, which counts once.
\<close>

theorem extent_counts_each_allocation_once_witness:
  "hits sampleKernel = [(0x1000, 0x100), (0x1000, 0x100), (0x1200, 0x100)]
   \<and> extent sampleKernel = 0x200
   \<and> (\<Sum>p \<in> fst ` set (hits sampleKernel). firstSize (hits sampleKernel) p) = 0x200
   \<and> resolve sampleKernel 0 = None
   \<and> checkAddress sampleKernel 0 ({0x1000}, 0x100) = ({0x1000}, 0x100)
   \<and> unat (packElement u8 0x12 0x134) = 0x1234
   \<and> unat (packElement s16 0x12 0x13456) = 0x123456
   \<and> unat (packElement b32 0x00007FFF 0xAAAA12345678) = 0x00007FFF12345678
   \<and> packElement u64 0x12 0x34 = 0x34
   \<and> candidates u8 0 [0x112, 0x34] = [0x12, 0x1234]
   \<and> candidates u32 0 [0x00007FFF, 0x12345678] = [0x00007FFF, 0x00007FFF12345678]"
proof -
  have c: "candidates u8 0 [0x112, 0x34] = [0x12, 0x1234]"
    "candidates u32 0 [0x00007FFF, 0x12345678] = [0x00007FFF, 0x00007FFF12345678]"
    by code_simp+
  have h: "hits sampleKernel = [(0x1000, 0x100), (0x1000, 0x100), (0x1200, 0x100)]"
    by code_simp
  have s: "(\<Sum>p \<in> fst ` set (hits sampleKernel). firstSize (hits sampleKernel) p) = 0x200"
    unfolding h by code_simp
  have m: "global_space (getGlobalMemoryAllocation sampleKernel 0) = AddressSpace_Invalid
        \<and> alloc_isa (getMemoryAllocation sampleKernel 0) = Unknown" by simp
  from extent_counts_each_allocation_once [of sampleKernel 0 "({0x1000}, 0x100)" u8 "0x12" "0x134"]
    extent_counts_each_allocation_once [of sampleKernel 0 "({0x1000}, 0x100)" s16 "0x12" "0x13456"]
    extent_counts_each_allocation_once [of sampleKernel 0 "({0x1000}, 0x100)" b32 "0x00007FFF" "0xAAAA12345678"]
    extent_counts_each_allocation_once [of sampleKernel 0 "({0x1000}, 0x100)" u64 "0x12" "0x34"]
  have main: "hits sampleKernel = [(0x1000, 0x100), (0x1000, 0x100), (0x1200, 0x100)]
   \<and> extent sampleKernel = 0x200
   \<and> (\<Sum>p \<in> fst ` set (hits sampleKernel). firstSize (hits sampleKernel) p) = 0x200
   \<and> resolve sampleKernel 0 = None
   \<and> checkAddress sampleKernel 0 ({0x1000}, 0x100) = ({0x1000}, 0x100)
   \<and> unat (packElement u8 0x12 0x134) = 0x1234
   \<and> unat (packElement s16 0x12 0x13456) = 0x123456
   \<and> unat (packElement b32 0x00007FFF 0xAAAA12345678) = 0x00007FFF12345678
   \<and> packElement u64 0x12 0x34 = 0x34"
    using h s m by simp
  from main c show ?thesis by blast
qed

end
